theory Spec2Isabelle
  imports Main "HOL-Library.Word" "HOL-Library.Sublist"
begin

unbundle bit_operations_syntax

section \<open>Bytes and the hand-written DER codec of \<open>AmpValidator\<close>\<close>

text \<open>
  A Node \<open>Buffer\<close> is a list of bytes. \<open>Buffer.from(array)\<close> keeps the low eight
  bits of every element, which is what \<open>word_of_int\<close> does.
\<close>

type_synonym byte = "8 word"

definition bufferFrom :: "int list \<Rightarrow> byte list" where
  "bufferFrom xs = map word_of_int xs"

text \<open>
  The bitwise operators of JavaScript work on the 32-bit signed reading of a number
  (\<open>ToInt32\<close>); \<open>>>\<close> is the arithmetic shift of that reading.
\<close>

definition toInt32 :: "int \<Rightarrow> int" where
  "toInt32 x = (let m = x mod 2 ^ 32 in if m < 2 ^ 31 then m else m - 2 ^ 32)"

text \<open>
  The loop of \<open>encodeLength\<close>:
  \<^verbatim>\<open>while (temp > 0) { lengthBytes.unshift(temp & 0xff); temp = temp >> 8; }\<close>
\<close>

function lengthBytes_loop :: "int \<Rightarrow> int list \<Rightarrow> int list" where
  "lengthBytes_loop temp lengthBytes =
     (if temp > 0
      then lengthBytes_loop (drop_bit 8 (toInt32 temp)) ((toInt32 temp AND 0xff) # lengthBytes)
      else lengthBytes)"
  by pat_completeness auto
termination
proof (relation "measure (\<lambda>(temp, _). nat temp)")
  show "wf (measure (\<lambda>(temp, _). nat temp))" by simp
next
  fix temp :: int and lengthBytes :: "int list"
  assume pos: "0 < temp"
  have "temp mod 2 ^ 32 \<le> temp"
    using pos by (simp add: zmod_le_nonneg_dividend)
  then have le: "toInt32 temp \<le> temp"
    by (simp add: toInt32_def Let_def)
  have "toInt32 temp div 256 < temp"
  proof (cases "0 < toInt32 temp")
    case True
    then have "toInt32 temp div 256 < toInt32 temp" by simp
    with le show ?thesis by simp
  next
    case False
    then have "toInt32 temp div 256 \<le> 0" by (simp add: div_int_pos_iff)
    with pos show ?thesis by simp
  qed
  then show "((drop_bit 8 (toInt32 temp), (toInt32 temp AND 0xff) # lengthBytes), (temp, lengthBytes))
        \<in> measure (\<lambda>(temp, _). nat temp)"
    using pos by (simp add: drop_bit_eq_div)
qed

declare lengthBytes_loop.simps [simp del]

definition encodeLength :: "int \<Rightarrow> byte list" where
  "encodeLength len =
     (if len < 0x80 then bufferFrom [len]
      else (let lengthBytes = lengthBytes_loop len []
            in bufferFrom [0x80 OR int (length lengthBytes)] @ bufferFrom lengthBytes))"

text \<open>
  \<open>value[0] >= 0x80\<close>: on an empty buffer \<open>value[0]\<close> is \<open>undefined\<close> and the
  comparison is false.
\<close>

definition needsPadding :: "byte list \<Rightarrow> bool" where
  "needsPadding val = (case val of [] \<Rightarrow> False | b # _ \<Rightarrow> b \<ge> 0x80)"

definition createASN1Integer :: "byte list \<Rightarrow> byte list" where
  "createASN1Integer val =
     (let paddedValue = (if needsPadding val then bufferFrom [0x00] @ val else val)
      in bufferFrom [0x02] @ encodeLength (int (length paddedValue)) @ paddedValue)"

definition rsaOID :: "byte list" where
  "rsaOID = bufferFrom
     [0x30, 0x0d, 0x06, 0x09, 0x2a, 0x86, 0x48, 0x86, 0xf7, 0x0d, 0x01, 0x01, 0x01, 0x05, 0x00]"

definition createRSAPublicKeyDER :: "byte list \<Rightarrow> byte list \<Rightarrow> byte list" where
  "createRSAPublicKeyDER n e =
     (let nInteger = createASN1Integer n;
          eInteger = createASN1Integer e;
          innerSequence = bufferFrom [0x30]
             @ encodeLength (int (length nInteger) + int (length eInteger))
             @ nInteger @ eInteger;
          bitString = bufferFrom [0x03]
             @ encodeLength (int (length innerSequence) + 1)
             @ bufferFrom [0x00] @ innerSequence;
          outerSequence = bufferFrom [0x30]
             @ encodeLength (int (length rsaOID) + int (length bitString))
             @ rsaOID @ bitString
      in outerSequence)"

text \<open>
  For comparison, the digits of a positive number to the base 256, most significant
  first: what the long form of a DER length holds after its first byte.
\<close>

function digits256 :: "int \<Rightarrow> int list" where
  "digits256 n = (if n \<le> 0 then [] else digits256 (n div 256) @ [n mod 256])"
  by pat_completeness auto
termination
  by (relation "measure nat") auto

declare digits256.simps [simp del]

text \<open>
  The words of the specification for the encoding of a length: a value under 128 is a
  single byte; a larger value has the long form, a byte whose top bit is set and that
  holds the count of the bytes that follow, then the bytes of the length, most
  significant first.
\<close>

definition derLength :: "int \<Rightarrow> byte list" where
  "derLength n =
     (if n < 128 then [word_of_int n]
      else word_of_int (0x80 OR int (length (digits256 n))) # map word_of_int (digits256 n))"

section \<open>JavaScript values, strings and numbers\<close>

text \<open>
  A JavaScript string is a list of code units; a \<open>char\<close> stands for one code unit
  (the model covers the code units below 256), so \<open>length\<close> is \<open>.length\<close>.

  The values that the body parsers and \<open>response.json()\<close> hand to the code are JSON
  values. \<open>JObject\<close> lists the own properties of an object in the order in which the
  engine enumerates them, every key once. Numbers are integers (a double holds every
  integer of magnitude up to \<open>2^53\<close> exactly and prints it in plain decimal);
  \<open>NaN\<close> is \<open>None\<close> where it can arise.
  The value \<open>undefined\<close> is \<open>None\<close> of \<open>json option\<close>.
\<close>

datatype json =
    JNull
  | JBool bool
  | JNumber int
  | JString string
  | JArray "json list"
  | JObject "(string \<times> json) list"

text \<open>\<open>ToBoolean\<close>, as \<open>!x\<close>, \<open>&&\<close> and \<open>? :\<close> apply it.\<close>

definition truthy :: "json \<Rightarrow> bool" where
  "truthy v =
     (case v of
        JNull \<Rightarrow> False
      | JBool b \<Rightarrow> b
      | JNumber n \<Rightarrow> n \<noteq> 0
      | JString s \<Rightarrow> s \<noteq> []
      | JArray _ \<Rightarrow> True
      | JObject _ \<Rightarrow> True)"

definition truthyOpt :: "json option \<Rightarrow> bool" where
  "truthyOpt v = (case v of None \<Rightarrow> False | Some x \<Rightarrow> truthy x)"

definition typeof :: "json option \<Rightarrow> string" where
  "typeof v =
     (case v of
        None \<Rightarrow> ''undefined''
      | Some JNull \<Rightarrow> ''object''
      | Some (JBool _) \<Rightarrow> ''boolean''
      | Some (JNumber _) \<Rightarrow> ''number''
      | Some (JString _) \<Rightarrow> ''string''
      | Some (JArray _) \<Rightarrow> ''object''
      | Some (JObject _) \<Rightarrow> ''object'')"

text \<open>
  Reading the property \<open>name\<close> of a value that is not \<open>null\<close>: an own property of
  an object, \<open>undefined\<close> otherwise. (The names the code reads, \<open>kid\<close>, \<open>n\<close>,
  \<open>e\<close> and \<open>keys\<close>, are no properties of strings, numbers or booleans; an array
  has the method \<open>keys\<close>, which is no array, and the code treats it as it treats
  \<open>undefined\<close>.)
\<close>

definition getProp :: "json \<Rightarrow> string \<Rightarrow> json option" where
  "getProp v name = (case v of JObject kvs \<Rightarrow> map_of kvs name | _ \<Rightarrow> None)"

text \<open>\<open>Number.prototype.toString(radix)\<close> on a natural number, and on an integer.\<close>

definition digitChar :: "nat \<Rightarrow> char" where
  "digitChar d = ''0123456789abcdefghijklmnopqrstuvwxyz'' ! d"

function numberToString :: "nat \<Rightarrow> nat \<Rightarrow> string" where
  "numberToString radix n =
     (if radix < 2 \<or> n < radix then [digitChar n]
      else numberToString radix (n div radix) @ [digitChar (n mod radix)])"
  by pat_completeness auto
termination
  by (relation "measure (\<lambda>(radix, n). n)") auto

declare numberToString.simps [simp del]

definition intToString :: "nat \<Rightarrow> int \<Rightarrow> string" where
  "intToString radix i =
     (if i < 0 then CHR ''-'' # numberToString radix (nat (- i))
      else numberToString radix (nat i))"

text \<open>\<open>Object.keys\<close> of an object or an array (the indices of an array, as strings).\<close>

definition objectKeys :: "json \<Rightarrow> string list" where
  "objectKeys v =
     (case v of
        JObject kvs \<Rightarrow> map fst kvs
      | JArray xs \<Rightarrow> map (numberToString 10) [0..<length xs]
      | _ \<Rightarrow> [])"

text \<open>
  \<open>JSON.stringify\<close> with one argument: no white space, the keys in enumeration
  order, strings quoted as \<open>QuoteJSONString\<close> does.
\<close>

definition quoteChar :: "char \<Rightarrow> string" where
  "quoteChar c =
     (let n = (of_char c :: nat) in
      if n = 0x22 then [CHR 0x5C, CHR 0x22]
      else if n = 0x5C then [CHR 0x5C, CHR 0x5C]
      else if n = 0x08 then [CHR 0x5C, CHR ''b'']
      else if n = 0x09 then [CHR 0x5C, CHR ''t'']
      else if n = 0x0A then [CHR 0x5C, CHR ''n'']
      else if n = 0x0C then [CHR 0x5C, CHR ''f'']
      else if n = 0x0D then [CHR 0x5C, CHR ''r'']
      else if n < 0x20
        then [CHR 0x5C, CHR ''u'', CHR ''0'', CHR ''0'', digitChar (n div 16), digitChar (n mod 16)]
      else [c])"

definition quoteJSONString :: "string \<Rightarrow> string" where
  "quoteJSONString s = [CHR 0x22] @ concat (map quoteChar s) @ [CHR 0x22]"

fun join :: "string \<Rightarrow> string list \<Rightarrow> string" where
  "join sep [] = []"
| "join sep [x] = x"
| "join sep (x # y # ys) = x @ sep @ join sep (y # ys)"

fun JSON_stringify :: "json \<Rightarrow> string" where
  "JSON_stringify JNull = ''null''"
| "JSON_stringify (JBool b) = (if b then ''true'' else ''false'')"
| "JSON_stringify (JNumber n) = intToString 10 n"
| "JSON_stringify (JString s) = quoteJSONString s"
| "JSON_stringify (JArray xs) = ''['' @ join '','' (map JSON_stringify xs) @ '']''"
| "JSON_stringify (JObject kvs) =
     ''{'' @ join '','' (map (\<lambda>(k, v). quoteJSONString k @ '':'' @ JSON_stringify v) kvs) @ ''}''"

text \<open>\<open>String.prototype.startsWith\<close> and \<open>replace\<close> with a string pattern (the first occurrence).\<close>

fun startsWith :: "string \<Rightarrow> string \<Rightarrow> bool" where
  "startsWith s [] = True"
| "startsWith [] (p # ps) = False"
| "startsWith (c # cs) (p # ps) = (c = p \<and> startsWith cs ps)"

fun replaceFirst :: "string \<Rightarrow> string \<Rightarrow> string \<Rightarrow> string" where
  "replaceFirst [] pat rep = (if pat = [] then rep else [])"
| "replaceFirst (c # cs) pat rep =
     (if startsWith (c # cs) pat then rep @ drop (length pat) (c # cs)
      else c # replaceFirst cs pat rep)"

text \<open>
  \<open>parseInt(string)\<close> with no radix: leading white space is skipped, then an optional
  sign, then \<open>0x\<close> or \<open>0X\<close> selects radix 16, then the longest run of digits of the
  radix is read; no digit at all gives \<open>NaN\<close>.
\<close>

definition isWhiteSpace :: "char \<Rightarrow> bool" where
  "isWhiteSpace c = ((of_char c :: nat) \<in> {0x09, 0x0A, 0x0B, 0x0C, 0x0D, 0x20, 0xA0})"

definition digitValue :: "char \<Rightarrow> nat option" where
  "digitValue c =
     (let n = (of_char c :: nat) in
      if 0x30 \<le> n \<and> n \<le> 0x39 then Some (n - 0x30)
      else if 0x61 \<le> n \<and> n \<le> 0x7A then Some (n - 0x61 + 10)
      else if 0x41 \<le> n \<and> n \<le> 0x5A then Some (n - 0x41 + 10)
      else None)"

definition isDigitOf :: "nat \<Rightarrow> char \<Rightarrow> bool" where
  "isDigitOf radix c = (case digitValue c of None \<Rightarrow> False | Some d \<Rightarrow> d < radix)"

definition digitsValue :: "nat \<Rightarrow> string \<Rightarrow> nat" where
  "digitsValue radix z =
     foldl (\<lambda>acc c. acc * radix + (case digitValue c of None \<Rightarrow> 0 | Some d \<Rightarrow> d)) 0 z"

definition parseInt :: "string \<Rightarrow> int option" where
  "parseInt inputString =
     (let s = dropWhile isWhiteSpace inputString;
          sign = (if startsWith s ''-'' then - 1 else (1 :: int));
          s1 = (if startsWith s ''-'' \<or> startsWith s ''+'' then drop 1 s else s);
          hex = (startsWith s1 ''0x'' \<or> startsWith s1 ''0X'');
          radix = (if hex then 16 else 10);
          s2 = (if hex then drop 2 s1 else s1);
          z = takeWhile (isDigitOf radix) s2
      in if z = [] then None else Some (sign * int (digitsValue radix z)))"

section \<open>\<open>AmpValidator\<close>: key cache and signature validation\<close>

text \<open>
  What the code does to the outside world is recorded as a list of events, in order:
  the calls of the logger (level and message), the calls of \<open>fetch\<close> (the URL) and
  the verification attempts (the key id).
\<close>

datatype level = LDebug | LInfo | LWarn | LError

datatype event =
    Log level string
  | Fetch string
  | Verify json

text \<open>
  The functions of the Node library that the validator calls are not code of the
  repository; they are parameters of the model:
  \<^item> \<open>fromBase64 s\<close> is \<open>Buffer.from(s, 'base64')\<close>, which never throws;
  \<^item> \<open>fromBase64url v\<close> is \<open>Buffer.from(v, 'base64url')\<close>, \<open>None\<close> when it throws
    (as it does for a number);
  \<^item> \<open>toBase64 b\<close> is \<open>b.toString('base64')\<close>, a string without line breaks;
  \<^item> \<open>fromUtf8 s\<close> is \<open>Buffer.from(s, 'utf8')\<close>;
  \<^item> \<open>rsaSha256Verify key message signature\<close> is \<open>crypto.createVerify('RSA-SHA256')\<close>,
    \<open>update\<close> and \<open>verify\<close>, \<open>None\<close> when one of them throws.
\<close>

record runtime =
  fromBase64 :: "string \<Rightarrow> byte list"
  fromBase64url :: "json option \<Rightarrow> byte list option"
  toBase64 :: "byte list \<Rightarrow> string"
  fromUtf8 :: "string \<Rightarrow> byte list"
  rsaSha256Verify :: "string \<Rightarrow> byte list \<Rightarrow> byte list \<Rightarrow> bool option"

text \<open>
  The exceptions that \<open>ensurePublicKeys\<close> can see or throw, each standing for the
  \<open>Error\<close> with the message given:
  \<^item> \<open>Thrown m\<close>: \<open>fetch\<close> or \<open>response.json()\<close> rejected with message \<open>m\<close>;
  \<^item> \<open>BadStatus status statusText\<close>: \<open>Failed to fetch public keys: ${status} ${statusText}\<close>;
  \<^item> \<open>InvalidKeysFormat\<close>: \<open>Invalid public keys response format\<close>;
  \<^item> \<open>NullProperty name\<close>: the \<open>TypeError\<close> of reading \<open>name\<close> from \<open>null\<close>;
  \<^item> \<open>CannotValidate e\<close>: \<open>Cannot validate AMP signatures: ${e.message}\<close>.
\<close>

datatype exn =
    Thrown string
  | BadStatus nat string
  | InvalidKeysFormat
  | NullProperty string
  | CannotValidate exn

text \<open>What \<open>await fetch(url)\<close> and then \<open>await response.json()\<close> give.\<close>

record response =
  ok :: bool
  status :: nat
  statusText :: string
  jsonBody :: "string + json"

datatype fetch_outcome = Rejected string | Responded response

text \<open>
  \<open>Map<string, string>\<close>: the entries in insertion order. \<open>set\<close> on a key that is
  present replaces the value in place; keys are compared as \<open>SameValueZero\<close> does (two
  objects or arrays that were parsed separately are never the same value).
\<close>

definition sameValueZero :: "json \<Rightarrow> json \<Rightarrow> bool" where
  "sameValueZero a b =
     (case (a, b) of
        (JNull, JNull) \<Rightarrow> True
      | (JBool x, JBool y) \<Rightarrow> x = y
      | (JNumber x, JNumber y) \<Rightarrow> x = y
      | (JString x, JString y) \<Rightarrow> x = y
      | _ \<Rightarrow> False)"

fun mapSetBy :: "('k \<Rightarrow> 'k \<Rightarrow> bool) \<Rightarrow> 'k \<Rightarrow> 'v \<Rightarrow> ('k \<times> 'v) list \<Rightarrow> ('k \<times> 'v) list" where
  "mapSetBy same k v [] = [(k, v)]"
| "mapSetBy same k v ((k', v') # m) =
     (if same k' k then (k', v) # m else (k', v') # mapSetBy same k v m)"

record validator =
  publicKeys :: "(json \<times> string) list"
  lastKeyFetch :: int

definition KEY_CACHE_TTL :: int where
  "KEY_CACHE_TTL = 24 * 60 * 60 * 1000"

definition AMP_PUBLIC_KEYS_URL :: string where
  "AMP_PUBLIC_KEYS_URL = ''https://cdn.ampproject.org/certs/signing_certs.json''"

definition initialValidator :: validator where
  "initialValidator = \<lparr>publicKeys = [], lastKeyFetch = 0\<rparr>"

text \<open>\<open>publicKeyBase64.match(/.{1,64}/g) || []\<close>: the pieces of at most 64 characters.\<close>

function chunks :: "nat \<Rightarrow> string \<Rightarrow> string list" where
  "chunks n s = (if n = 0 \<or> s = [] then [] else take n s # chunks n (drop n s))"
  by pat_completeness auto
termination
  by (relation "measure (\<lambda>(n, s). length s)") auto

declare chunks.simps [simp del]

definition jwkToPem :: "runtime \<Rightarrow> json \<Rightarrow> string option" where
  "jwkToPem rt jwk =
     (case fromBase64url rt (getProp jwk ''n'') of
        None \<Rightarrow> None
      | Some n \<Rightarrow>
          (case fromBase64url rt (getProp jwk ''e'') of
             None \<Rightarrow> None
           | Some e \<Rightarrow>
               (let publicKeyDer = createRSAPublicKeyDER n e;
                    publicKeyBase64 = toBase64 rt publicKeyDer;
                    publicKeyPem = join [CHR 0x0A]
                      ([''-----BEGIN PUBLIC KEY-----'']
                        @ chunks 64 publicKeyBase64
                        @ [''-----END PUBLIC KEY-----''])
                in Some publicKeyPem)))"

text \<open>
  The first lines of the \<open>try\<close> block of \<open>ensurePublicKeys\<close>, after the fetch has
  settled: the array \<open>keysData.keys\<close>, or the exception thrown before the cache is touched.
\<close>

definition readKeys :: "fetch_outcome \<Rightarrow> exn + json list" where
  "readKeys outcome =
     (case outcome of
        Rejected m \<Rightarrow> Inl (Thrown m)
      | Responded r \<Rightarrow>
          if \<not> ok r then Inl (BadStatus (status r) (statusText r))
          else (case jsonBody r of
                  Inl m \<Rightarrow> Inl (Thrown m)
                | Inr keysData \<Rightarrow>
                    (case keysData of
                       JNull \<Rightarrow> Inl (NullProperty ''keys'')
                     | _ \<Rightarrow>
                        (case getProp keysData ''keys'' of
                           Some (JArray items) \<Rightarrow> Inr items
                         | _ \<Rightarrow> Inl InvalidKeysFormat))))"

text \<open>
  The loop over \<open>keysData.keys\<close>. Reading \<open>kid\<close> from a \<open>null\<close> entry throws out of
  the loop (the exception comes with the keys stored so far, which stay in the map); a
  failure of \<open>jwkToPem\<close> is caught inside the loop and only logged.
\<close>

fun addKeys :: "runtime \<Rightarrow> json list \<Rightarrow> (json \<times> string) list
    \<Rightarrow> exn option \<times> (json \<times> string) list \<times> event list" where
  "addKeys rt [] keys = (None, keys, [])"
| "addKeys rt (keyData # rest) keys =
     (if keyData = JNull then (Some (NullProperty ''kid''), keys, [])
      else
        (case getProp keyData ''kid'' of
           None \<Rightarrow> addKeys rt rest keys
         | Some kid \<Rightarrow>
             if truthy kid \<and> truthyOpt (getProp keyData ''n'') \<and> truthyOpt (getProp keyData ''e'')
             then
               (case jwkToPem rt keyData of
                  Some publicKey \<Rightarrow>
                    (let (thrown, keys', events) =
                           addKeys rt rest (mapSetBy sameValueZero kid publicKey keys)
                     in (thrown, keys', Log LDebug ''Added public key'' # events))
                | None \<Rightarrow>
                    (let (thrown, keys', events) = addKeys rt rest keys
                     in (thrown, keys', Log LWarn ''Failed to process public key'' # events)))
             else addKeys rt rest keys))"

text \<open>
  \<open>ensurePublicKeys\<close> in its two synchronous parts. \<open>cacheFresh\<close> is the test of the
  early return; a call that fails it logs, calls \<open>fetch\<close> and is suspended at
  \<open>await\<close>. \<open>refreshKeys\<close> is everything after the fetch has settled: the rest of
  the \<open>try\<close> block and the \<open>catch\<close> block. \<open>now\<close> is the clock read at the start of
  the call. The result is the exception thrown to the caller (if any), the validator
  afterwards and the events.
\<close>

definition cacheFresh :: "int \<Rightarrow> validator \<Rightarrow> bool" where
  "cacheFresh now st = (length (publicKeys st) > 0 \<and> now - lastKeyFetch st < KEY_CACHE_TTL)"

definition refreshKeys :: "runtime \<Rightarrow> int \<Rightarrow> fetch_outcome \<Rightarrow> validator
    \<Rightarrow> exn option \<times> validator \<times> event list" where
  "refreshKeys rt now outcome st =
     (let (thrown, st', events) =
            (case readKeys outcome of
               Inl e \<Rightarrow> (Some e, st, [])
             | Inr items \<Rightarrow>
                 (case addKeys rt items [] of
                    (Some e, keys, events) \<Rightarrow> (Some e, st\<lparr>publicKeys := keys\<rparr>, events)
                  | (None, keys, events) \<Rightarrow>
                      (None, st\<lparr>publicKeys := keys, lastKeyFetch := now\<rparr>,
                       events @ [Log LInfo (''Loaded '' @ numberToString 10 (length keys)
                                              @ '' AMP public keys'')])))
      in case thrown of
           None \<Rightarrow> (None, st', events)
         | Some e \<Rightarrow>
             if length (publicKeys st') = 0
             then (Some (CannotValidate e), st',
                   events @ [Log LError ''Failed to fetch AMP public keys''])
             else (None, st',
                   events @ [Log LError ''Failed to fetch AMP public keys'',
                             Log LWarn ''Using cached public keys due to fetch failure'']))"

definition ensurePublicKeys :: "runtime \<Rightarrow> int \<Rightarrow> fetch_outcome \<Rightarrow> validator
    \<Rightarrow> exn option \<times> validator \<times> event list" where
  "ensurePublicKeys rt now outcome st =
     (if cacheFresh now st then (None, st, [])
      else
        (let (thrown, st', events) = refreshKeys rt now outcome st
         in (thrown, st',
             [Log LInfo ''Fetching AMP public keys from Google'', Fetch AMP_PUBLIC_KEYS_URL]
               @ events)))"

text \<open>
  The result of \<open>validateSignature\<close>: \<open>{isValid: true, publicKey: keyId}\<close> is \<open>Valid keyId\<close>,
  \<open>{isValid: false, error}\<close> is \<open>Invalid\<close> of the error, where
  \<^item> \<open>InvalidSignatureFormat\<close> is \<open>Invalid signature format. Expected rsa-sha256= prefix\<close>;
  \<^item> \<open>TimestampTooOld timeDiff maxTimeDiff\<close> is
    \<open>Timestamp too old. Difference: ${timeDiff}ms, Max allowed: ${maxTimeDiff}ms\<close>;
  \<^item> \<open>VerificationFailed\<close> is \<open>Signature verification failed with all available public keys\<close>;
  \<^item> \<open>ValidationError e\<close> is \<open>Validation error: ${e.message}\<close>.
\<close>

datatype validation_error =
    InvalidSignatureFormat
  | TimestampTooOld int int
  | VerificationFailed
  | ValidationError exn

datatype validation = Valid json | Invalid validation_error

definition isValid :: "validation \<Rightarrow> bool" where
  "isValid v = (case v of Valid _ \<Rightarrow> True | Invalid _ \<Rightarrow> False)"

text \<open>The loop over the entries of \<open>this.publicKeys\<close>.\<close>

fun verifyWithKeys :: "runtime \<Rightarrow> byte list \<Rightarrow> byte list \<Rightarrow> (json \<times> string) list
    \<Rightarrow> validation \<times> event list" where
  "verifyWithKeys rt messageBuffer signatureBuffer [] = (Invalid VerificationFailed, [])"
| "verifyWithKeys rt messageBuffer signatureBuffer ((keyId, publicKey) # rest) =
     (case rsaSha256Verify rt publicKey messageBuffer signatureBuffer of
        Some True \<Rightarrow>
          (Valid keyId, [Verify keyId, Log LInfo ''AMP signature validated successfully''])
      | Some False \<Rightarrow>
          (let (result, events) = verifyWithKeys rt messageBuffer signatureBuffer rest
           in (result, Verify keyId # events))
      | None \<Rightarrow>
          (let (result, events) = verifyWithKeys rt messageBuffer signatureBuffer rest
           in (result, Verify keyId # Log LWarn ''Failed to verify with key'' # events)))"

text \<open>
  \<open>validateSignature(body, signature, timestamp)\<close>. \<open>now\<close> is the clock read in the
  function, \<open>nowKeys\<close> the one read in \<open>ensurePublicKeys\<close>, \<open>outcome\<close> what the
  network gives if the keys are fetched. The signature may be \<open>undefined\<close> at run time
  (the code tests \<open>!signature\<close>). A number is \<open>NaN\<close> (\<open>None\<close>) or an integer;
  every comparison with \<open>NaN\<close> is false.
\<close>

definition canonicalMessage :: "string \<Rightarrow> string \<Rightarrow> string" where
  "canonicalMessage timestamp body = timestamp @ body"

definition validateSignature :: "runtime \<Rightarrow> int \<Rightarrow> int \<Rightarrow> fetch_outcome \<Rightarrow> validator
    \<Rightarrow> string \<Rightarrow> string option \<Rightarrow> string \<Rightarrow> validation \<times> validator \<times> event list" where
  "validateSignature rt now nowKeys outcome st body signature timestamp =
     (case signature of
        None \<Rightarrow> (Invalid InvalidSignatureFormat, st, [])
      | Some sig \<Rightarrow>
          if sig = [] \<or> \<not> startsWith sig ''rsa-sha256=''
          then (Invalid InvalidSignatureFormat, st, [])
          else
            (let signatureData = replaceFirst sig ''rsa-sha256='' [];
                 signatureBuffer = fromBase64 rt signatureData;
                 timestampMs = map_option (\<lambda>t. t * 1000) (parseInt timestamp);
                 timeDiff = map_option (\<lambda>t. \<bar>now - t\<bar>) timestampMs;
                 maxTimeDiff = 5 * 60 * 1000;
                 expired = (case timeDiff of
                              None \<Rightarrow> None
                            | Some d \<Rightarrow> if d > maxTimeDiff then Some d else None)
             in case expired of
                  Some d \<Rightarrow> (Invalid (TimestampTooOld d maxTimeDiff), st, [])
                | None \<Rightarrow>
                    (case ensurePublicKeys rt nowKeys outcome st of
                       (Some e, st', events) \<Rightarrow>
                         (Invalid (ValidationError e), st',
                          events @ [Log LError ''AMP signature validation error''])
                     | (None, st', events) \<Rightarrow>
                         (let message = canonicalMessage timestamp body;
                              messageBuffer = fromUtf8 rt message;
                              (result, events') =
                                verifyWithKeys rt messageBuffer signatureBuffer (publicKeys st')
                          in (result, st', events @ events')))))"

section \<open>The middleware \<open>validateAmpSignature\<close>\<close>

text \<open>
  What the middleware reads of the request: the two headers and \<open>req.body\<close>, the value
  that the body parsers (\<open>express.json()\<close>, \<open>express.urlencoded()\<close>) built from the
  bytes received. The bytes themselves are not available to it.
\<close>

record request =
  ampSignatureHeader :: "string option"
  ampTimestampHeader :: "string option"
  body :: "json option"

text \<open>
  The middleware either calls \<open>next()\<close>, with \<open>req.ampData.isValidSignature\<close> set, or
  answers with a status and an \<open>error\<close> text.
\<close>

datatype middleware_result = Next bool | Respond nat string

text \<open>A header is missing (\<open>!header\<close>) when it is absent or the empty string.\<close>

definition present :: "string option \<Rightarrow> bool" where
  "present h = (case h of None \<Rightarrow> False | Some s \<Rightarrow> s \<noteq> [])"

text \<open>\<open>const rawBody = req.body ? JSON.stringify(req.body) : ''\<close>\<close>

definition rawBody :: "request \<Rightarrow> string" where
  "rawBody req =
     (case body req of
        None \<Rightarrow> []
      | Some b \<Rightarrow> if truthy b then JSON_stringify b else [])"

text \<open>
  \<open>validateSignatures\<close> is \<open>config.amp.validateSignatures\<close> and \<open>development\<close> says
  whether \<open>NODE_ENV\<close> is \<open>development\<close>. \<open>validateSignature\<close> catches every exception
  itself, so the \<open>catch\<close> block of the middleware is never entered from it.
\<close>

definition validateAmpSignature :: "bool \<Rightarrow> bool \<Rightarrow> runtime \<Rightarrow> int \<Rightarrow> int \<Rightarrow> fetch_outcome
    \<Rightarrow> validator \<Rightarrow> request \<Rightarrow> middleware_result \<times> validator \<times> event list" where
  "validateAmpSignature validateSignatures development rt now nowKeys outcome st req =
     (if \<not> validateSignatures
      then (Next True, st, [Log LDebug ''AMP signature validation disabled''])
      else if \<not> present (ampSignatureHeader req) \<or> \<not> present (ampTimestampHeader req)
      then
        (if development then (Next True, st, [Log LWarn ''Missing AMP headers''])
         else (Respond 400 ''Missing required AMP headers (amp-signature, amp-timestamp)'', st,
               [Log LWarn ''Missing AMP headers'']))
      else
        (let ampTimestamp = (case ampTimestampHeader req of None \<Rightarrow> [] | Some t \<Rightarrow> t);
             (validationResult, st', events) =
               validateSignature rt now nowKeys outcome st
                 (rawBody req) (ampSignatureHeader req) ampTimestamp
         in if \<not> isValid validationResult
            then (Respond 401 ''Invalid AMP signature'', st',
                  events @ [Log LInfo ''AMP signature validation'',
                            Log LWarn ''AMP signature validation failed''])
            else (Next True, st',
                  events @ [Log LInfo ''AMP signature validation'',
                            Log LInfo ''AMP signature validated successfully''])))"

section \<open>\<open>WebhookService\<close>: the submission store\<close>

text \<open>
  The interfaces of the types module. Where a field name of the source is taken in
  Isabelle it has a longer name here: \<open>type\<close>, \<open>value\<close>, \<open>fields\<close> and \<open>method\<close>
  are \<open>fieldType\<close>, \<open>fieldValue\<close>, \<open>formFields\<close> and \<open>httpMethod\<close>, and the
  \<open>id\<close> and \<open>formId\<close> of a submission are \<open>submissionId\<close> and
  \<open>submissionFormId\<close>.
\<close>

record FormField =
  name :: string
  fieldType :: string
  fieldValue :: json
  required :: "bool option"

record FormStructure =
  formId :: string
  formFields :: "FormField list"
  action :: string
  httpMethod :: string

record SubmissionMetadata =
  userAgent :: "string option"
  ipAddress :: "string option"
  referer :: "string option"
  ampSignature :: "string option"
  ampTimestamp :: "string option"
  ampSignatureValid :: "bool option"
  formStructure :: FormStructure
  senderEmail :: "string option"

text \<open>
  The argument of \<open>processSubmission\<close> and the record it builds from it, which has the
  fields of the request and four more. A \<open>Date\<close> is its time value in milliseconds.
\<close>

record SubmissionRequest =
  formData :: "json option"
  metadata :: SubmissionMetadata
  isAmpValidated :: "bool option"

record AmpFormSubmission = SubmissionRequest +
  submissionId :: string
  submissionFormId :: string
  timestamp :: int
  isTracked :: bool

text \<open>\<open>createError(message, statusCode, code)\<close>\<close>

record WebhookError =
  message :: string
  statusCode :: nat
  code :: string

text \<open>
  \<open>Map<string, AmpFormSubmission>\<close>, the entries in insertion order; \<open>set\<close> is
  \<open>mapSetBy (=)\<close>.
\<close>

type_synonym store = "(string \<times> AmpFormSubmission) list"

definition mapDelete :: "'k \<Rightarrow> ('k \<times> 'v) list \<Rightarrow> ('k \<times> 'v) list" where
  "mapDelete k m = filter (\<lambda>(k', v). k' \<noteq> k) m"

definition maxSubmissions :: nat where
  "maxSubmissions = 10000"

text \<open>
  \<open>`sub_${Date.now().toString(36)}_${crypto.randomBytes(6).toString('hex')}`\<close>, from the
  clock and the six random bytes.
\<close>

definition hexByte :: "byte \<Rightarrow> string" where
  "hexByte b = [digitChar (unat b div 16), digitChar (unat b mod 16)]"

definition generateSubmissionId :: "int \<Rightarrow> byte list \<Rightarrow> string" where
  "generateSubmissionId now random =
     ''sub_'' @ intToString 36 now @ ''_'' @ concat (map hexByte random)"

text \<open>
  The three regular expressions of \<open>dangerousPatterns\<close>, each as the test
  \<open>pattern.test(dataString)\<close> of a fresh expression: a match may start at any index.
  With the flag \<open>i\<close> two characters match when their canonical forms (the code of
  the upper-case letter, for a letter) are equal.
\<close>

definition canonicalize :: "char \<Rightarrow> nat" where
  "canonicalize c =
     (let n = (of_char c :: nat) in if 0x61 \<le> n \<and> n \<le> 0x7A then n - 0x20 else n)"

fun matchesIgnoreCase :: "string \<Rightarrow> string \<Rightarrow> bool" where
  "matchesIgnoreCase [] s = True"
| "matchesIgnoreCase (p # ps) [] = False"
| "matchesIgnoreCase (p # ps) (c # cs) =
     (canonicalize p = canonicalize c \<and> matchesIgnoreCase ps cs)"

fun matchesSomewhere :: "(string \<Rightarrow> bool) \<Rightarrow> string \<Rightarrow> bool" where
  "matchesSomewhere matchesAt [] = matchesAt []"
| "matchesSomewhere matchesAt (c # cs) = (matchesAt (c # cs) \<or> matchesSomewhere matchesAt cs)"

definition isWordChar :: "char \<Rightarrow> bool" where
  "isWordChar c =
     (let n = (of_char c :: nat) in
      (0x30 \<le> n \<and> n \<le> 0x39) \<or> (0x41 \<le> n \<and> n \<le> 0x5A) \<or> n = 0x5F \<or> (0x61 \<le> n \<and> n \<le> 0x7A))"

definition isLineTerminator :: "char \<Rightarrow> bool" where
  "isLineTerminator c = ((of_char c :: nat) \<in> {0x0A, 0x0D})"

text \<open>
  \<open>/<script[^>]*>.*?<\/script>/gi\<close> at one index: \<open><script\<close>, then every character
  up to the first \<open>>\<close>, then \<open></script>\<close> somewhere before the next line terminator.
\<close>

definition scriptTagAt :: "string \<Rightarrow> bool" where
  "scriptTagAt s =
     (matchesIgnoreCase ''<script'' s \<and>
      (case dropWhile (\<lambda>c. c \<noteq> CHR ''>'') (drop 7 s) of
         [] \<Rightarrow> False
       | _ # rest \<Rightarrow>
           matchesSomewhere (matchesIgnoreCase ''</script>'')
             (takeWhile (\<lambda>c. \<not> isLineTerminator c) rest)))"

text \<open>\<open>/javascript:/gi\<close> at one index.\<close>

definition javascriptUrlAt :: "string \<Rightarrow> bool" where
  "javascriptUrlAt s = matchesIgnoreCase ''javascript:'' s"

text \<open>
  \<open>/on\w+\s*=/gi\<close> at one index: \<open>on\<close>, the longest run of word characters (at least
  one), the longest run of white space, then \<open>=\<close>. (A shorter run cannot match, as the
  character after it is neither white space nor \<open>=\<close>.)
\<close>

definition eventHandlerAt :: "string \<Rightarrow> bool" where
  "eventHandlerAt s =
     (matchesIgnoreCase ''on'' s \<and>
      (let afterOn = drop 2 s;
           word = takeWhile isWordChar afterOn;
           afterWord = dropWhile isWordChar afterOn
       in word \<noteq> [] \<and>
          (case dropWhile isWhiteSpace afterWord of
             [] \<Rightarrow> False
           | c # _ \<Rightarrow> c = CHR ''='')))"

definition dangerousPatterns :: "(string \<Rightarrow> bool) list" where
  "dangerousPatterns =
     [matchesSomewhere scriptTagAt, matchesSomewhere javascriptUrlAt, matchesSomewhere eventHandlerAt]"

text \<open>
  \<open>validateFormData\<close>: the message of the \<open>Error\<close> thrown, or the events logged. The
  loop over the patterns logs one warning at the first pattern that matches and stops.
\<close>

definition validateFormData :: "json option \<Rightarrow> string + event list" where
  "validateFormData formData' =
     (case formData' of
        None \<Rightarrow> Inl ''Form data must be an object''
      | Some fd \<Rightarrow>
          if \<not> truthy fd \<or> typeof formData' \<noteq> ''object''
          then Inl ''Form data must be an object''
          else if length (objectKeys fd) = 0 then Inl ''Form data cannot be empty''
          else
            (let dataString = JSON_stringify fd
             in if length dataString > 100000 then Inl ''Form data too large''
                else if list_ex (\<lambda>pattern. pattern dataString) dangerousPatterns
                then Inr [Log LWarn ''Potentially malicious content detected in form data'']
                else Inr []))"

text \<open>
  \<open>cleanupOldSubmissions\<close>: the entries sorted by time value, oldest first (the sort of
  an array is stable), and the first tenth of them deleted from the map.
  \<open>Math.floor(submissions.length * 0.1)\<close> is \<open>length submissions div 10\<close> (the
  product of doubles is never below the tenth and exceeds it by far less than one).
\<close>

definition cleanupOldSubmissions :: "store \<Rightarrow> store \<times> event list" where
  "cleanupOldSubmissions submissionsMap =
     (let submissions = sort_key (\<lambda>entry. timestamp (snd entry)) submissionsMap;
          toRemove = length submissions div 10
      in (fold (\<lambda>entry m. mapDelete (fst entry) m) (take toRemove submissions) submissionsMap,
          [Log LInfo (''Cleaned up '' @ numberToString 10 toRemove @ '' old submissions'')]))"

text \<open>
  \<open>processFormContent\<close> analyses the form data for one log entry inside a \<open>try\<close> block
  of its own: it changes nothing and throws nothing. The analysis is not modelled;
  \<open>analysisFails\<close> says whether it threw.
\<close>

definition processFormContent :: "bool \<Rightarrow> event list" where
  "processFormContent analysisFails =
     (if analysisFails then [Log LError ''Error processing form content:'']
      else [Log LInfo ''Form content analyzed''])"

text \<open>
  \<open>processSubmission\<close>. \<open>idClock\<close> and \<open>random\<close> are the clock and the random bytes
  read by \<open>generateSubmissionId\<close>, \<open>now\<close> is the time value of \<open>new Date()\<close>. The
  request has the shape that \<open>SubmissionMetadata\<close> declares (\<open>metadata\<close> and its
  \<open>formStructure\<close> are there), so that reading \<open>formId\<close> does not throw. The
  result is the error thrown or the submission returned, with the map afterwards and the
  events. \<open>saveSubmissions\<close> runs unawaited and only writes the file: it is not an
  event of the call.
\<close>

definition processSubmission :: "int \<Rightarrow> byte list \<Rightarrow> int \<Rightarrow> bool \<Rightarrow> store \<Rightarrow> SubmissionRequest
    \<Rightarrow> (WebhookError + AmpFormSubmission) \<times> store \<times> event list" where
  "processSubmission idClock random now analysisFails submissionsMap req =
     (let newId = generateSubmissionId idClock random
      in case validateFormData (formData req) of
           Inl msg \<Rightarrow>
             (Inl \<lparr>message = ''Submission processing failed: '' @ msg,
                   statusCode = 500, code = ''PROCESSING_FAILED''\<rparr>,
              submissionsMap, [Log LError ''Failed to process submission:''])
         | Inr warnings \<Rightarrow>
             (let submission =
                    \<lparr>formData = formData req,
                     metadata = metadata req,
                     isAmpValidated = isAmpValidated req,
                     submissionId = newId,
                     submissionFormId = formId (formStructure (metadata req)),
                     timestamp = now,
                     isTracked = True\<rparr>;
                  stored = mapSetBy (=) newId submission submissionsMap;
                  (cleaned, cleanupEvents) =
                    (if length stored > maxSubmissions then cleanupOldSubmissions stored
                     else (stored, []))
              in (Inr submission, cleaned,
                  warnings @ cleanupEvents
                    @ [Log LInfo ''Submission processed successfully'']
                    @ processFormContent analysisFails)))"

text \<open>\<open>getSubmission(id)\<close>\<close>

definition getSubmission :: "store \<Rightarrow> string \<Rightarrow> AmpFormSubmission option" where
  "getSubmission submissionsMap k = map_of submissionsMap k"

text \<open>
  The words of the specification for what an eviction removes: the \<open>n\<close> entries that
  are oldest by time value, entries of equal time value in the order of their insertion.
\<close>

definition oldestEntries :: "nat \<Rightarrow> store \<Rightarrow> store" where
  "oldestEntries n submissionsMap =
     take n (sort_key (\<lambda>entry. timestamp (snd entry)) submissionsMap)"

section \<open>Concurrent calls of \<open>ensurePublicKeys\<close>\<close>

text \<open>
  Calls of \<open>validateSignature\<close> run on one event loop: a call runs without
  interruption until it awaits, and the only awaits of \<open>ensurePublicKeys\<close> are
  \<open>await fetch(...)\<close> and \<open>await response.json()\<close>, between which the cache is not
  touched. A call that has passed the checks of the signature and the timestamp
  therefore takes two steps: \<open>Start\<close> reads the clock, tests the cache and either
  returns or calls \<open>fetch\<close> and is suspended; \<open>Settle\<close> runs the rest with what the
  fetch gave. Steps of different calls interleave in any order. The system is the one
  validator, the suspended calls (each with the clock it read) and the events so far.
\<close>

record system =
  theValidator :: validator
  suspended :: "(nat \<times> int) list"
  trace :: "event list"

datatype step = Start nat int | Settle nat fetch_outcome

definition startCall :: "nat \<Rightarrow> int \<Rightarrow> system \<Rightarrow> system" where
  "startCall c now sys =
     (if cacheFresh now (theValidator sys) then sys
      else sys\<lparr>suspended := suspended sys @ [(c, now)],
               trace := trace sys
                 @ [Log LInfo ''Fetching AMP public keys from Google'', Fetch AMP_PUBLIC_KEYS_URL]\<rparr>)"

definition settleCall :: "runtime \<Rightarrow> nat \<Rightarrow> fetch_outcome \<Rightarrow> system \<Rightarrow> system" where
  "settleCall rt c outcome sys =
     (case map_of (suspended sys) c of
        None \<Rightarrow> sys
      | Some now \<Rightarrow>
          (let (thrown, st', events) = refreshKeys rt now outcome (theValidator sys)
           in \<lparr>theValidator = st',
               suspended = mapDelete c (suspended sys),
               trace = trace sys @ events\<rparr>))"

fun runStep :: "runtime \<Rightarrow> step \<Rightarrow> system \<Rightarrow> system" where
  "runStep rt (Start c now) sys = startCall c now sys"
| "runStep rt (Settle c outcome) sys = settleCall rt c outcome sys"

definition run :: "runtime \<Rightarrow> step list \<Rightarrow> system \<Rightarrow> system" where
  "run rt steps sys = fold (runStep rt) steps sys"

definition isFetch :: "event \<Rightarrow> bool" where
  "isFetch e = (case e of Fetch _ \<Rightarrow> True | _ \<Rightarrow> False)"

definition fetchCount :: "event list \<Rightarrow> nat" where
  "fetchCount events = length (filter isFetch events)"

definition idle :: "validator \<Rightarrow> system" where
  "idle st = \<lparr>theValidator = st, suspended = [], trace = []\<rparr>"

section \<open>Values for worked examples\<close>

text \<open>
  In the worked examples a buffer holds the code units of the string it was made from,
  and a signature verifies under every key exactly when it is the message itself.
\<close>

definition codeUnits :: "string \<Rightarrow> byte list" where
  "codeUnits s = map (\<lambda>c. of_nat (of_char c)) s"

definition exampleRuntime :: runtime where
  "exampleRuntime =
     \<lparr>fromBase64 = codeUnits,
      fromBase64url = (\<lambda>v. case v of Some (JString s) \<Rightarrow> Some (codeUnits s) | _ \<Rightarrow> None),
      toBase64 = map (\<lambda>b. char_of (unat b)),
      fromUtf8 = codeUnits,
      rsaSha256Verify = (\<lambda>publicKey messageBuffer signatureBuffer.
                           Some (signatureBuffer = messageBuffer))\<rparr>"

text \<open>
  A modulus of 2048 bits with its top bit set, and a byte string of \<open>2^31\<close> bytes.
\<close>

definition modulus2048 :: "byte list" where
  "modulus2048 = 0xC3 # replicate 255 0x55"

definition hugeValue :: "byte list" where
  "hugeValue = replicate 2147483648 0x01"

definition cachedValidator :: validator where
  "cachedValidator = \<lparr>publicKeys = [(JString ''key-1'', ''PEM'')], lastKeyFetch = 1700000000000\<rparr>"

text \<open>A request with one form field, and a store that is full: 10000 entries under distinct keys.\<close>

definition exampleMetadata :: SubmissionMetadata where
  "exampleMetadata =
     \<lparr>userAgent = None, ipAddress = None, referer = None, ampSignature = None,
      ampTimestamp = None, ampSignatureValid = None,
      formStructure = \<lparr>formId = ''survey'', formFields = [], action = ''/webhook'',
                       httpMethod = ''POST''\<rparr>,
      senderEmail = None\<rparr>"

definition exampleRequest :: SubmissionRequest where
  "exampleRequest =
     \<lparr>formData = Some (JObject [(''answer'', JString ''yes'')]),
      metadata = exampleMetadata,
      isAmpValidated = Some True\<rparr>"

definition storedSubmission :: "nat \<Rightarrow> string \<times> AmpFormSubmission" where
  "storedSubmission i =
     (replicate (Suc i) CHR ''k'',
      \<lparr>formData = Some (JObject [(''answer'', JString ''no'')]),
       metadata = exampleMetadata,
       isAmpValidated = Some True,
       submissionId = replicate (Suc i) CHR ''k'',
       submissionFormId = ''survey'',
       timestamp = int i,
       isTracked = True\<rparr>)"

definition fullStore :: store where
  "fullStore = map storedSubmission [0..<10000]"

text \<open>
  Two more stores of 10000 entries: one in which every submission is younger than the
  clock of the worked examples, and one whose first key is the identifier that the
  worked examples generate.
\<close>

definition youngerSubmission :: "nat \<Rightarrow> string \<times> AmpFormSubmission" where
  "youngerSubmission i =
     (replicate (Suc i) CHR ''k'',
      \<lparr>formData = Some (JObject [(''answer'', JString ''no'')]),
       metadata = exampleMetadata,
       isAmpValidated = Some True,
       submissionId = replicate (Suc i) CHR ''k'',
       submissionFormId = ''survey'',
       timestamp = 1700000000001 + int i,
       isTracked = True\<rparr>)"

definition youngerStore :: store where
  "youngerStore = map youngerSubmission [0..<10000]"

definition clashStore :: store where
  "clashStore =
     (''sub_loyw3v28_010203040506'', snd (storedSubmission 0)) # map storedSubmission [0..<9999]"



section \<open>Properties of the codec\<close>

lemma encodeLength_short:
  "len < 128 \<Longrightarrow> encodeLength len = [word_of_int len]"
  by (simp add: encodeLength_def bufferFrom_def)

lemma toInt32_id: "0 \<le> x \<Longrightarrow> x < 2 ^ 31 \<Longrightarrow> toInt32 x = x"
  by (simp add: toInt32_def Let_def)

lemma low_byte: "(x :: int) AND 0xff = x mod 256"
proof -
  have "x AND mask 8 = take_bit 8 x"
    by (simp add: take_bit_eq_mask)
  then show ?thesis
    by (simp add: take_bit_eq_mod mask_eq_exp_minus_1)
qed

lemma lengthBytes_loop_digits:
  "0 \<le> n \<Longrightarrow> n < 2 ^ 31 \<Longrightarrow> lengthBytes_loop n acc = digits256 n @ acc"
proof (induction n acc rule: lengthBytes_loop.induct)
  case (1 temp lengthBytes)
  show ?case
  proof (cases "temp > 0")
    case False
    then show ?thesis
      by (simp add: lengthBytes_loop.simps [of temp] digits256.simps [of temp])
  next
    case True
    have same: "toInt32 temp = temp"
      using "1.prems" by (simp add: toInt32_id)
    have small: "0 \<le> temp div 256" "temp div 256 < 2 ^ 31"
      using "1.prems" True by auto
    have "lengthBytes_loop (drop_bit 8 (toInt32 temp)) ((toInt32 temp AND 0xff) # lengthBytes)
        = digits256 (temp div 256) @ (temp mod 256) # lengthBytes"
      using "1.IH" [OF True] small by (simp add: same drop_bit_eq_div low_byte)
    then show ?thesis
      using True by (simp add: lengthBytes_loop.simps [of temp] digits256.simps [of temp])
  qed
qed

lemma digits256_value: "0 \<le> n \<Longrightarrow> foldl (\<lambda>a b. a * 256 + b) 0 (digits256 n) = n"
proof (induction n rule: digits256.induct)
  case (1 n)
  show ?case
  proof (cases "n \<le> 0")
    case True
    then have "n = 0"
      using "1.prems" by simp
    then show ?thesis
      by (simp add: digits256.simps [of 0])
  next
    case False
    then have "foldl (\<lambda>a b. a * 256 + b) 0 (digits256 (n div 256)) = n div 256"
      using "1.IH" by simp
    then show ?thesis
      using False by (simp add: digits256.simps [of n])
  qed
qed

text \<open>
  The long form, for a length that a buffer can have: the count of the digits with the
  top bit set, then the digits of the length to the base 256.
\<close>

lemma encodeLength_long:
  assumes "128 \<le> len" and "len < 2 ^ 31"
  shows "encodeLength len
           = word_of_int (0x80 OR int (length (digits256 len))) # map word_of_int (digits256 len)"
proof -
  have "lengthBytes_loop len [] = digits256 len"
    using assms lengthBytes_loop_digits [of len "[]"] by simp
  then show ?thesis
    using assms(1) by (simp add: encodeLength_def bufferFrom_def Let_def)
qed

lemma encodeLength_257: "encodeLength 257 = [0x82, 0x01, 0x01]"
  by (simp add: encodeLength_long digits256.simps)

lemma encodeLength_derLength:
  assumes "len < 2 ^ 31"
  shows "encodeLength len = derLength len"
proof (cases "len < 128")
  case True
  then show ?thesis
    by (simp add: encodeLength_short derLength_def)
next
  case False
  then have "encodeLength len
      = word_of_int (0x80 OR int (length (digits256 len))) # map word_of_int (digits256 len)"
    using assms by (intro encodeLength_long) simp_all
  then show ?thesis
    using False by (simp add: derLength_def)
qed

lemma digits256_one:
  assumes "0 < n" and "n < 256"
  shows "digits256 n = [n]"
proof -
  have "n div 256 = 0" and "n mod 256 = n"
    using assms by simp_all
  then show ?thesis
    using assms(1) by (simp add: digits256.simps [of n] digits256.simps [of 0])
qed

lemma digits256_two:
  assumes "256 \<le> n" and "n < 65536"
  shows "digits256 n = [n div 256, n mod 256]"
proof -
  have "0 < n div 256" and "n div 256 < 256"
    using assms by arith+
  then have "digits256 (n div 256) = [n div 256]"
    by (rule digits256_one)
  then show ?thesis
    using assms(1) by (simp add: digits256.simps [of n])
qed

text \<open>The forms of the length for the sizes that keys have.\<close>

lemma derLength_forms:
  "n < 128 \<Longrightarrow> derLength n = [word_of_int n]"
  "128 \<le> n \<Longrightarrow> n < 256 \<Longrightarrow> derLength n = [0x81, word_of_int n]"
  "256 \<le> n \<Longrightarrow> n < 65536
     \<Longrightarrow> derLength n = [0x82, word_of_int (n div 256), word_of_int (n mod 256)]"
  by (simp_all add: derLength_def digits256_one digits256_two)

text \<open>
  The claim C2 speaks of every non-empty byte string. For a byte string of \<open>2^31\<close>
  bytes it does not hold: the loop of \<open>encodeLength\<close> works on the 32-bit signed
  reading of the length, which is negative here, so the length is written as the two
  bytes 81 00 and not as 84 80 00 00 00.
\<close>

theorem createASN1Integer_length_counterexample:
  "length hugeValue = 2147483648
   \<and> createASN1Integer hugeValue = [0x02, 0x81, 0x00] @ hugeValue
   \<and> derLength 2147483648 = [0x84, 0x80, 0x00, 0x00, 0x00]
   \<and> createASN1Integer hugeValue \<noteq> 0x02 # derLength (int (length hugeValue)) @ hugeValue"
proof -
  have len: "length hugeValue = 2147483648"
    unfolding hugeValue_def by (rule length_replicate)
  have "(2147483648 :: nat) = Suc 2147483647"
    by simp
  then have huge: "hugeValue = 0x01 # replicate 2147483647 0x01"
    unfolding hugeValue_def by (simp only: replicate_Suc)
  have "needsPadding hugeValue = ((0x01 :: byte) \<ge> 0x80)"
    by (subst huge) (simp only: needsPadding_def list.case)
  then have pad: "\<not> needsPadding hugeValue"
    by (simp add: word_le_nat_alt)
  have "lengthBytes_loop 2147483648 [] = [0]"
    by (simp add: lengthBytes_loop.simps toInt32_def drop_bit_eq_div low_byte)
  then have enc: "encodeLength 2147483648 = [0x81, 0x00]"
    by (simp add: encodeLength_def bufferFrom_def)
  have code: "createASN1Integer hugeValue = [0x02, 0x81, 0x00] @ hugeValue"
    using pad by (simp add: createASN1Integer_def Let_def len enc bufferFrom_def)
  have "digits256 2147483648 = [128, 0, 0, 0]"
    by (simp add: digits256.simps)
  then have der: "derLength 2147483648 = [0x84, 0x80, 0x00, 0x00, 0x00]"
    by (simp add: derLength_def)
  have "createASN1Integer hugeValue \<noteq> 0x02 # derLength (int (length hugeValue)) @ hugeValue"
    by (simp add: code len der)
  with len code der show ?thesis
    by blast
qed

text \<open>
  Claim C2, amended. For every non-empty byte string whose content (the value with its
  zero byte, where it has one) is shorter than \<open>2^31\<close> bytes, the INTEGER encoding is
  the tag byte 0x02, the length of the content encoded as the specification says
  (\<open>derLength\<close>), and the content: the value behind exactly one zero byte when its
  first byte is 0x80 or more, the value itself otherwise. The first content byte is
  below 0x80, so the content never reads as a negative number. The length is one byte
  for a content of fewer than 128 bytes, 81 and one byte up to 255 bytes, 82 and two
  bytes up to 65535 bytes.
\<close>

theorem createASN1Integer_encoding:
  assumes "val \<noteq> []"
    and "length val + (if hd val \<ge> 0x80 then 1 else 0) < 2147483648"
  shows "createASN1Integer val =
           (if hd val \<ge> 0x80
            then [0x02] @ derLength (int (length val) + 1) @ [0x00] @ val
            else [0x02] @ derLength (int (length val)) @ val)
         \<and> (\<exists>content. createASN1Integer val
                 = 0x02 # derLength (int (length content)) @ content
               \<and> content = (if hd val \<ge> 0x80 then 0x00 # val else val)
               \<and> hd content < 0x80
               \<and> (length content < 128 \<longrightarrow>
                    createASN1Integer val = 0x02 # word_of_nat (length content) # content)
               \<and> (128 \<le> length content \<and> length content < 256 \<longrightarrow>
                    createASN1Integer val = 0x02 # 0x81 # word_of_nat (length content) # content)
               \<and> (256 \<le> length content \<and> length content < 65536 \<longrightarrow>
                    createASN1Integer val
                      = 0x02 # 0x82 # word_of_nat (length content div 256)
                          # word_of_nat (length content mod 256) # content))"
proof -
  from assms(1) obtain b bs where val: "val = b # bs"
    by (cases val) auto
  define content where "content = (if hd val \<ge> 0x80 then 0x00 # val else val)"
  have small: "int (length content) < 2 ^ 31"
    using assms(2) by (simp add: content_def split: if_splits)
  have code: "createASN1Integer val = 0x02 # encodeLength (int (length content)) @ content"
    by (simp add: val content_def createASN1Integer_def needsPadding_def bufferFrom_def)
  have der: "createASN1Integer val = 0x02 # derLength (int (length content)) @ content"
    using code encodeLength_derLength [OF small] by simp
  have zero: "(0::byte) < 0x80"
    by simp
  have first: "hd content < 0x80"
    using zero by (simp add: content_def val not_le)
  have f1: "createASN1Integer val = 0x02 # word_of_nat (length content) # content"
    if "length content < 128"
    using that der derLength_forms(1) [of "int (length content)"] by simp
  have f2: "createASN1Integer val = 0x02 # 0x81 # word_of_nat (length content) # content"
    if "128 \<le> length content \<and> length content < 256"
    using that der derLength_forms(2) [of "int (length content)"] by simp
  have "int (length content div 256) = int (length content) div 256"
    and "int (length content mod 256) = int (length content) mod 256"
    by (simp_all add: zdiv_int zmod_int)
  then have high: "(word_of_nat (length content div 256) :: byte)
      = word_of_int (int (length content) div 256)"
    and low: "(word_of_nat (length content mod 256) :: byte)
      = word_of_int (int (length content) mod 256)"
    by (metis of_int_of_nat_eq)+
  have f3: "createASN1Integer val
      = 0x02 # 0x82 # word_of_nat (length content div 256)
          # word_of_nat (length content mod 256) # content"
    if "256 \<le> length content \<and> length content < 65536"
    using that der derLength_forms(3) [of "int (length content)"]
    by (simp add: high low)
  have split: "createASN1Integer val =
           (if hd val \<ge> 0x80
            then [0x02] @ derLength (int (length val) + 1) @ [0x00] @ val
            else [0x02] @ derLength (int (length val)) @ val)"
    using der by (simp add: content_def add.commute)
  from der first f1 f2 f3 have "createASN1Integer val
                 = 0x02 # derLength (int (length content)) @ content
               \<and> content = (if hd val \<ge> 0x80 then 0x00 # val else val)
               \<and> hd content < 0x80
               \<and> (length content < 128 \<longrightarrow>
                    createASN1Integer val = 0x02 # word_of_nat (length content) # content)
               \<and> (128 \<le> length content \<and> length content < 256 \<longrightarrow>
                    createASN1Integer val = 0x02 # 0x81 # word_of_nat (length content) # content)
               \<and> (256 \<le> length content \<and> length content < 65536 \<longrightarrow>
                    createASN1Integer val
                      = 0x02 # 0x82 # word_of_nat (length content div 256)
                          # word_of_nat (length content mod 256) # content)"
    by (simp add: content_def)
  then show ?thesis
    using split by blast
qed

theorem createASN1Integer_encoding_witness:
  "length modulus2048 = 256
   \<and> createASN1Integer modulus2048 = [0x02, 0x82, 0x01, 0x01, 0x00] @ modulus2048
   \<and> createASN1Integer [0x7F, 0x55] = [0x02, 0x02, 0x7F, 0x55]"
proof -
  have "length modulus2048 = Suc 255"
    by (simp only: modulus2048_def length_Cons length_replicate)
  then have len: "length modulus2048 = 256"
    by simp
  have hd: "hd modulus2048 = 0xC3"
    by (simp only: modulus2048_def list.sel)
  have high: "(0x80 :: byte) \<le> 0xC3"
    by (simp add: word_le_nat_alt)
  have ne: "modulus2048 \<noteq> []"
    using len by auto
  have bound: "length modulus2048 + (if hd modulus2048 \<ge> 0x80 then 1 else 0) < 2147483648"
    by (simp add: len)
  have "createASN1Integer modulus2048 = [0x02] @ derLength 257 @ [0x00] @ modulus2048"
    using createASN1Integer_encoding [OF ne bound] high by (simp add: hd len)
  then have big: "createASN1Integer modulus2048 = [0x02, 0x82, 0x01, 0x01, 0x00] @ modulus2048"
    using derLength_forms(3) [of 257] by simp
  have ne2: "[0x7F, 0x55] \<noteq> ([] :: byte list)"
    by simp
  have low: "\<not> (0x80 :: byte) \<le> 0x7F"
    by (simp add: word_le_nat_alt)
  have bound2: "length [0x7F, 0x55 :: byte] + (if hd [0x7F, 0x55 :: byte] \<ge> 0x80 then 1 else 0)
      < 2147483648"
    by simp
  have "createASN1Integer [0x7F, 0x55] = [0x02] @ derLength 2 @ [0x7F, 0x55]"
    using createASN1Integer_encoding [OF ne2 bound2] low by simp
  then have "createASN1Integer [0x7F, 0x55] = [0x02, 0x02, 0x7F, 0x55]"
    using derLength_forms(1) [of 2] by simp
  with len big show ?thesis
    by simp
qed

text \<open>
  The claim C5 says that the codec rejects an empty modulus or exponent. It does not:
  for the empty modulus and the exponent 65537 it returns this key.
\<close>

theorem createRSAPublicKeyDER_empty_counterexample:
  "createRSAPublicKeyDER [] [0x01, 0x00, 0x01]
     = [0x30, 0x1B, 0x30, 0x0D, 0x06, 0x09, 0x2A, 0x86, 0x48, 0x86, 0xF7, 0x0D, 0x01, 0x01,
        0x01, 0x05, 0x00, 0x03, 0x0A, 0x00, 0x30, 0x07, 0x02, 0x00, 0x02, 0x03, 0x01, 0x00, 0x01]"
  by (simp add: createRSAPublicKeyDER_def createASN1Integer_def needsPadding_def
        encodeLength_def bufferFrom_def rsaOID_def word_le_nat_alt)

text \<open>
  Claim C5, amended. The codec has no check of its input and never rejects: an empty
  byte string is encoded as the INTEGER of length zero (the bytes 02 00), the key built
  from an empty modulus or an empty exponent ends with the two INTEGER encodings, and
  \<open>jwkToPem\<close> fails only when \<open>Buffer.from\<close> throws on \<open>n\<close> or on \<open>e\<close>.
\<close>

theorem codec_accepts_empty_input:
  "createASN1Integer [] = [0x02, 0x00]
   \<and> suffix ([0x02, 0x00] @ createASN1Integer e) (createRSAPublicKeyDER [] e)
   \<and> suffix (createASN1Integer n @ [0x02, 0x00]) (createRSAPublicKeyDER n [])
   \<and> (jwkToPem rt jwk = None) =
       (fromBase64url rt (getProp jwk ''n'') = None \<or> fromBase64url rt (getProp jwk ''e'') = None)"
proof -
  have empty: "createASN1Integer [] = [0x02, 0x00]"
    by (simp add: createASN1Integer_def needsPadding_def encodeLength_def bufferFrom_def)
  have tail: "suffix (createASN1Integer a @ createASN1Integer b) (createRSAPublicKeyDER a b)"
    for a b
    unfolding createRSAPublicKeyDER_def Let_def
    by (intro suffix_appendI suffix_order.refl)
  have pem: "(jwkToPem rt jwk = None) =
       (fromBase64url rt (getProp jwk ''n'') = None \<or> fromBase64url rt (getProp jwk ''e'') = None)"
    by (simp add: jwkToPem_def Let_def split: option.splits)
  show ?thesis
    using empty tail [of "[]" e] tail [of n "[]"] pem by simp
qed

theorem codec_accepts_empty_input_witness:
  "jwkToPem exampleRuntime (JObject [(''kid'', JString ''k''), (''n'', JString []), (''e'', JString [])])
     \<noteq> None
   \<and> suffix [0x02, 0x00, 0x02, 0x00] (createRSAPublicKeyDER [] [])"
proof -
  have n: "fromBase64url exampleRuntime
      (getProp (JObject [(''kid'', JString ''k''), (''n'', JString []), (''e'', JString [])]) ''n'')
      \<noteq> None"
    by (simp add: exampleRuntime_def getProp_def)
  have e: "fromBase64url exampleRuntime
      (getProp (JObject [(''kid'', JString ''k''), (''n'', JString []), (''e'', JString [])]) ''e'')
      \<noteq> None"
    by (simp add: exampleRuntime_def getProp_def)
  note inst = codec_accepts_empty_input [of "[]" "[]" exampleRuntime
      "JObject [(''kid'', JString ''k''), (''n'', JString []), (''e'', JString [])]"]
  from inst have empty: "createASN1Integer [] = [0x02, 0x00]"
    by blast
  from inst have "suffix ([0x02, 0x00] @ createASN1Integer []) (createRSAPublicKeyDER [] [])"
    by blast
  then have der: "suffix [0x02, 0x00, 0x02, 0x00] (createRSAPublicKeyDER [] [])"
    by (simp add: empty)
  from inst n e have "jwkToPem exampleRuntime
      (JObject [(''kid'', JString ''k''), (''n'', JString []), (''e'', JString [])]) \<noteq> None"
    by blast
  with der show ?thesis
    by simp
qed

section \<open>Properties of signature validation\<close>

lemma startsWith_nonempty: "startsWith s (p # ps) \<Longrightarrow> s \<noteq> []"
  by (cases s) auto

lemma replaceFirst_prefix: "startsWith s p \<Longrightarrow> replaceFirst s p [] = drop (length p) s"
  by (cases s) auto

lemma verifyWithKeys_result:
  "fst (verifyWithKeys rt m s keys) = Invalid VerificationFailed
   \<or> (\<exists>k. fst (verifyWithKeys rt m s keys) = Valid k)"
  by (induction keys) (auto split: option.splits bool.splits prod.splits)

lemmas parseInt_eval =
  parseInt_def isWhiteSpace_def digitValue_def isDigitOf_def digitsValue_def Let_def

text \<open>
  Claim C7. A signature that is absent, empty or without the prefix \<open>rsa-sha256=\<close> is
  rejected with the format error; the validator is unchanged and no event has happened:
  no fetch of the keys, no verification attempt, not even a log entry.
\<close>

theorem validateSignature_format_error_first:
  assumes "signature = None \<or> (\<exists>s. signature = Some s \<and> \<not> startsWith s ''rsa-sha256='')"
  shows "validateSignature rt now nowKeys outcome st payload signature ts
           = (Invalid InvalidSignatureFormat, st, [])"
  using assms by (auto simp: validateSignature_def)

theorem validateSignature_format_error_first_witness:
  "\<forall>rt now nowKeys outcome st payload ts.
     validateSignature rt now nowKeys outcome st payload None ts
       = (Invalid InvalidSignatureFormat, st, [])
     \<and> validateSignature rt now nowKeys outcome st payload (Some ''sha1=AAAA'') ts
       = (Invalid InvalidSignatureFormat, st, [])
     \<and> validateSignature rt now nowKeys outcome st payload (Some []) ts
       = (Invalid InvalidSignatureFormat, st, [])"
proof (intro allI conjI)
  fix rt now nowKeys outcome st payload ts
  show "validateSignature rt now nowKeys outcome st payload None ts
          = (Invalid InvalidSignatureFormat, st, [])"
    by (rule validateSignature_format_error_first) simp
  show "validateSignature rt now nowKeys outcome st payload (Some ''sha1=AAAA'') ts
          = (Invalid InvalidSignatureFormat, st, [])"
    by (rule validateSignature_format_error_first) simp
  show "validateSignature rt now nowKeys outcome st payload (Some []) ts
          = (Invalid InvalidSignatureFormat, st, [])"
    by (rule validateSignature_format_error_first) simp
qed

text \<open>
  Claim C6. With a well-formed signature header, a timestamp that \<open>parseInt\<close> reads as
  the number \<open>t\<close> of seconds and that lies more than five minutes from the clock is
  rejected as too old, whatever the keys in the cache and whatever the verification of
  the signature would give (the runtime \<open>rt\<close>, the validator \<open>st\<close> and the outcome of a
  fetch are arbitrary); nothing is fetched and nothing is verified.
\<close>

theorem validateSignature_timestamp_expired:
  assumes "startsWith sig ''rsa-sha256=''"
    and "parseInt ts = Some t"
    and "\<bar>now - t * 1000\<bar> > 5 * 60 * 1000"
  shows "validateSignature rt now nowKeys outcome st payload (Some sig) ts
           = (Invalid (TimestampTooOld \<bar>now - t * 1000\<bar> (5 * 60 * 1000)), st, [])"
proof -
  have "sig \<noteq> []"
    using assms(1) by (rule startsWith_nonempty)
  then show ?thesis
    using assms by (simp add: validateSignature_def Let_def)
qed

theorem validateSignature_timestamp_expired_witness:
  "\<forall>rt nowKeys outcome st payload.
     validateSignature rt 1700000000000 nowKeys outcome st payload
         (Some ''rsa-sha256=AAAA'') ''1699999640''
       = (Invalid (TimestampTooOld 360000 300000), st, [])"
proof (intro allI)
  fix rt nowKeys outcome st payload
  have p: "startsWith ''rsa-sha256=AAAA'' ''rsa-sha256=''"
    by simp
  have t: "parseInt ''1699999640'' = Some 1699999640"
    by (simp add: parseInt_eval)
  have d: "\<bar>1700000000000 - 1699999640 * 1000\<bar> > (5 * 60 * 1000 :: int)"
    by simp
  show "validateSignature rt 1700000000000 nowKeys outcome st payload
          (Some ''rsa-sha256=AAAA'') ''1699999640''
        = (Invalid (TimestampTooOld 360000 300000), st, [])"
    using validateSignature_timestamp_expired [OF p t d] by simp
qed

text \<open>
  Claim C9. With a well-formed signature header and a timestamp that \<open>parseInt\<close> reads
  as \<open>NaN\<close>, the freshness check rejects nothing: the call goes on to
  \<open>ensurePublicKeys\<close> and to the verification of timestamp and body against the keys,
  and its result is never the rejection of a timestamp.
\<close>

theorem validateSignature_nan_timestamp_passes:
  assumes "startsWith sig ''rsa-sha256=''"
    and "parseInt ts = None"
  shows "validateSignature rt now nowKeys outcome st payload (Some sig) ts
           = (case ensurePublicKeys rt nowKeys outcome st of
                (Some e, st', events) \<Rightarrow>
                  (Invalid (ValidationError e), st',
                   events @ [Log LError ''AMP signature validation error''])
              | (None, st', events) \<Rightarrow>
                  (case verifyWithKeys rt (fromUtf8 rt (ts @ payload))
                          (fromBase64 rt (drop (length ''rsa-sha256='') sig)) (publicKeys st') of
                     (result, events') \<Rightarrow> (result, st', events @ events')))
         \<and> (\<forall>d m. fst (validateSignature rt now nowKeys outcome st payload (Some sig) ts)
                \<noteq> Invalid (TimestampTooOld d m))"
proof -
  have ne: "sig \<noteq> []"
    using assms(1) by (rule startsWith_nonempty)
  have rp: "replaceFirst sig ''rsa-sha256='' [] = drop (length ''rsa-sha256='') sig"
    using assms(1) by (rule replaceFirst_prefix)
  have eq: "validateSignature rt now nowKeys outcome st payload (Some sig) ts
           = (case ensurePublicKeys rt nowKeys outcome st of
                (Some e, st', events) \<Rightarrow>
                  (Invalid (ValidationError e), st',
                   events @ [Log LError ''AMP signature validation error''])
              | (None, st', events) \<Rightarrow>
                  (case verifyWithKeys rt (fromUtf8 rt (ts @ payload))
                          (fromBase64 rt (drop (length ''rsa-sha256='') sig)) (publicKeys st') of
                     (result, events') \<Rightarrow> (result, st', events @ events')))"
    using assms ne
    by (simp add: validateSignature_def Let_def rp canonicalMessage_def
          split: prod.splits option.splits)
  have "fst (validateSignature rt now nowKeys outcome st payload (Some sig) ts)
          \<noteq> Invalid (TimestampTooOld d m)" for d m
  proof (cases "ensurePublicKeys rt nowKeys outcome st")
    case (fields thrown st' events)
    show ?thesis
    proof (cases thrown)
      case None
      obtain result events' where v: "verifyWithKeys rt (fromUtf8 rt (ts @ payload))
          (fromBase64 rt (drop (length ''rsa-sha256='') sig)) (publicKeys st') = (result, events')"
        by (cases "verifyWithKeys rt (fromUtf8 rt (ts @ payload))
          (fromBase64 rt (drop (length ''rsa-sha256='') sig)) (publicKeys st')")
      have "result = Invalid VerificationFailed \<or> (\<exists>k. result = Valid k)"
        using verifyWithKeys_result [of rt "fromUtf8 rt (ts @ payload)"
          "fromBase64 rt (drop (length ''rsa-sha256='') sig)" "publicKeys st'"] v by simp
      then show ?thesis
        using eq fields None v by auto
    next
      case (Some e)
      then show ?thesis
        using eq fields by simp
    qed
  qed
  with eq show ?thesis by blast
qed

theorem validateSignature_nan_timestamp_passes_witness:
  "validateSignature exampleRuntime 1700000000000 1700000000000 (Rejected []) cachedValidator
       ''{}'' (Some ''rsa-sha256=soon{}'') ''soon''
     = (Valid (JString ''key-1''), cachedValidator,
        [Verify (JString ''key-1''), Log LInfo ''AMP signature validated successfully''])"
proof -
  have p: "startsWith ''rsa-sha256=soon{}'' ''rsa-sha256=''"
    by simp
  have t: "parseInt ''soon'' = None"
    by (simp add: parseInt_eval)
  have fresh: "ensurePublicKeys exampleRuntime 1700000000000 (Rejected []) cachedValidator
      = (None, cachedValidator, [])"
    by (simp add: ensurePublicKeys_def cacheFresh_def cachedValidator_def KEY_CACHE_TTL_def)
  have keys: "publicKeys cachedValidator = [(JString ''key-1'', ''PEM'')]"
    by (simp add: cachedValidator_def)
  have v: "rsaSha256Verify exampleRuntime ''PEM'' (fromUtf8 exampleRuntime ''soon{}'')
             (fromBase64 exampleRuntime ''soon{}'') = Some True"
    by (simp add: exampleRuntime_def)
  have e: "validateSignature exampleRuntime 1700000000000 1700000000000 (Rejected [])
             cachedValidator ''{}'' (Some ''rsa-sha256=soon{}'') ''soon''
           = (case ensurePublicKeys exampleRuntime 1700000000000 (Rejected []) cachedValidator of
                (Some e, st', events) \<Rightarrow>
                  (Invalid (ValidationError e), st',
                   events @ [Log LError ''AMP signature validation error''])
              | (None, st', events) \<Rightarrow>
                  (case verifyWithKeys exampleRuntime (fromUtf8 exampleRuntime (''soon'' @ ''{}''))
                          (fromBase64 exampleRuntime
                             (drop (length ''rsa-sha256='') ''rsa-sha256=soon{}''))
                          (publicKeys st') of
                     (result, events') \<Rightarrow> (result, st', events @ events')))"
    using validateSignature_nan_timestamp_passes [OF p t] by blast
  show ?thesis
    by (simp add: e fresh keys v)
qed

text \<open>
  The claim C3 says that a call with a well-formed signature header and a fresh timestamp
  on an empty key cache fails in a way that differs from a wrong signature. It does not
  hold when the fetch succeeds and the document lists no key: the cache is empty before
  and after, and the result is the failure of a signature that matches no key.
\<close>

theorem validateSignature_no_keys_counterexample:
  "validateSignature exampleRuntime 1700000000000 1700000000000
       (Responded \<lparr>ok = True, status = 200, statusText = ''OK'',
                   jsonBody = Inr (JObject [(''keys'', JArray [])])\<rparr>)
       initialValidator ''{}'' (Some ''rsa-sha256=AAAA'') ''1700000000''
     = (Invalid VerificationFailed,
        \<lparr>publicKeys = [], lastKeyFetch = 1700000000000\<rparr>,
        [Log LInfo ''Fetching AMP public keys from Google'', Fetch AMP_PUBLIC_KEYS_URL,
         Log LInfo ''Loaded 0 AMP public keys''])"
  by (simp add: validateSignature_def parseInt_eval ensurePublicKeys_def cacheFresh_def
        refreshKeys_def readKeys_def getProp_def initialValidator_def numberToString.simps digitChar_def)

text \<open>
  Claim C3, amended. With a well-formed signature header, a timestamp that the freshness
  check lets pass and an empty key cache, the keys are fetched; when the fetch fails
  before any key is stored (\<open>fetch\<close> or \<open>json()\<close> rejects, the status is not OK, or
  the document has no array \<open>keys\<close>), the result is the error
  \<open>Validation error: Cannot validate AMP signatures: ...\<close>, which is not the failure
  of a signature that matches no key, and the cache stays as it was.
\<close>

theorem validateSignature_fetch_failure_distinguished:
  assumes "publicKeys st = []"
    and "startsWith sig ''rsa-sha256=''"
    and "case parseInt ts of None \<Rightarrow> True | Some t \<Rightarrow> \<bar>now - t * 1000\<bar> \<le> 5 * 60 * 1000"
    and "readKeys outcome = Inl e"
  shows "validateSignature rt now nowKeys outcome st payload (Some sig) ts
           = (Invalid (ValidationError (CannotValidate e)), st,
              [Log LInfo ''Fetching AMP public keys from Google'', Fetch AMP_PUBLIC_KEYS_URL,
               Log LError ''Failed to fetch AMP public keys'',
               Log LError ''AMP signature validation error''])
         \<and> fst (validateSignature rt now nowKeys outcome st payload (Some sig) ts)
               \<noteq> Invalid VerificationFailed"
proof -
  have ne: "sig \<noteq> []"
    using assms(2) by (rule startsWith_nonempty)
  have ensure: "ensurePublicKeys rt nowKeys outcome st
      = (Some (CannotValidate e), st,
         [Log LInfo ''Fetching AMP public keys from Google'', Fetch AMP_PUBLIC_KEYS_URL,
          Log LError ''Failed to fetch AMP public keys''])"
    using assms(1) assms(4)
    by (simp add: ensurePublicKeys_def cacheFresh_def refreshKeys_def)
  show ?thesis
  proof (cases "parseInt ts")
    case None
    then show ?thesis
      using assms(2) ne by (simp add: validateSignature_def Let_def ensure)
  next
    case (Some t)
    then have "\<not> \<bar>now - t * 1000\<bar> > 5 * 60 * 1000"
      using assms(3) by simp
    then show ?thesis
      using Some assms(2) ne by (simp add: validateSignature_def Let_def ensure)
  qed
qed

theorem validateSignature_fetch_failure_distinguished_witness:
  "\<forall>rt payload.
     validateSignature rt 1700000000000 1700000000000 (Rejected ''connect ECONNREFUSED'')
         initialValidator payload (Some ''rsa-sha256=AAAA'') ''1700000000''
       = (Invalid (ValidationError (CannotValidate (Thrown ''connect ECONNREFUSED''))),
          initialValidator,
          [Log LInfo ''Fetching AMP public keys from Google'', Fetch AMP_PUBLIC_KEYS_URL,
           Log LError ''Failed to fetch AMP public keys'',
           Log LError ''AMP signature validation error''])"
proof (intro allI)
  fix rt payload
  have k: "publicKeys initialValidator = []"
    by (simp add: initialValidator_def)
  have p: "startsWith ''rsa-sha256=AAAA'' ''rsa-sha256=''"
    by simp
  have t: "case parseInt ''1700000000'' of None \<Rightarrow> True
           | Some t \<Rightarrow> \<bar>1700000000000 - t * 1000\<bar> \<le> 5 * 60 * 1000"
    by (simp add: parseInt_eval)
  have r: "readKeys (Rejected ''connect ECONNREFUSED'') = Inl (Thrown ''connect ECONNREFUSED'')"
    by (simp add: readKeys_def)
  show "validateSignature rt 1700000000000 1700000000000 (Rejected ''connect ECONNREFUSED'')
         initialValidator payload (Some ''rsa-sha256=AAAA'') ''1700000000''
       = (Invalid (ValidationError (CannotValidate (Thrown ''connect ECONNREFUSED''))),
          initialValidator,
          [Log LInfo ''Fetching AMP public keys from Google'', Fetch AMP_PUBLIC_KEYS_URL,
           Log LError ''Failed to fetch AMP public keys'',
           Log LError ''AMP signature validation error''])"
    using validateSignature_fetch_failure_distinguished [OF k p t r] by simp
qed

section \<open>The message that the middleware has verified\<close>

text \<open>
  Claim C1 says that the message verified is the timestamp followed by the bytes of the
  body as they were transmitted. The middleware passes \<open>JSON.stringify(req.body)\<close>
  instead. For the body \<open>{"a": 1}\<close>, which \<open>express.json()\<close> parses to the object with
  the one property \<open>a = 1\<close>, the text passed is \<open>{"a":1}\<close>: a signature over the
  timestamp and the transmitted bytes is answered with 401, and a signature over the
  timestamp and the re-serialised text is accepted.
\<close>

theorem validateAmpSignature_verifies_reserialised_body:
  \<open>rawBody \<lparr>ampSignatureHeader = Some ''rsa-sha256=1700000000{"a": 1}'',
             ampTimestampHeader = Some ''1700000000'',
             body = Some (JObject [(''a'', JNumber 1)])\<rparr> = ''{"a":1}''
   \<and> fst (validateAmpSignature True False exampleRuntime 1700000000000 1700000000000
            (Rejected []) cachedValidator
            \<lparr>ampSignatureHeader = Some ''rsa-sha256=1700000000{"a": 1}'',
             ampTimestampHeader = Some ''1700000000'',
             body = Some (JObject [(''a'', JNumber 1)])\<rparr>)
       = Respond 401 ''Invalid AMP signature''
   \<and> fst (validateAmpSignature True False exampleRuntime 1700000000000 1700000000000
            (Rejected []) cachedValidator
            \<lparr>ampSignatureHeader = Some ''rsa-sha256=1700000000{"a":1}'',
             ampTimestampHeader = Some ''1700000000'',
             body = Some (JObject [(''a'', JNumber 1)])\<rparr>)
       = Next True\<close>
proof -
  have t: "parseInt ''1700000000'' = Some 1700000000"
    by (simp add: parseInt_eval)
  have fresh: "ensurePublicKeys exampleRuntime 1700000000000 (Rejected []) cachedValidator
      = (None, cachedValidator, [])"
    by (simp add: ensurePublicKeys_def cacheFresh_def cachedValidator_def KEY_CACHE_TTL_def)
  have keys: "publicKeys cachedValidator = [(JString ''key-1'', ''PEM'')]"
    by (simp add: cachedValidator_def)
  have v: "rsaSha256Verify exampleRuntime k (fromUtf8 exampleRuntime m)
             (fromBase64 exampleRuntime s) = Some (codeUnits s = codeUnits m)" for k m s
    by (simp add: exampleRuntime_def)
  show ?thesis
    by (simp add: rawBody_def truthy_def validateAmpSignature_def present_def
          quoteJSONString_def quoteChar_def intToString_def numberToString.simps digitChar_def
          validateSignature_def Let_def t fresh keys v canonicalMessage_def isValid_def
          codeUnits_def)
qed

text \<open>
  So the text handed to \<open>validateSignature\<close> is not the transmitted body, and the
  request signed over the transmitted body does not reach \<open>next()\<close>.
\<close>

theorem validateAmpSignature_verifies_reserialised_body_witness:
  \<open>rawBody \<lparr>ampSignatureHeader = Some ''rsa-sha256=1700000000{"a": 1}'',
             ampTimestampHeader = Some ''1700000000'',
             body = Some (JObject [(''a'', JNumber 1)])\<rparr> \<noteq> ''{"a": 1}''
   \<and> fst (validateAmpSignature True False exampleRuntime 1700000000000 1700000000000
            (Rejected []) cachedValidator
            \<lparr>ampSignatureHeader = Some ''rsa-sha256=1700000000{"a": 1}'',
             ampTimestampHeader = Some ''1700000000'',
             body = Some (JObject [(''a'', JNumber 1)])\<rparr>)
       \<noteq> Next True\<close>
  using validateAmpSignature_verifies_reserialised_body by simp

section \<open>Properties of concurrent key refreshes\<close>

lemma fetchCount_append: "fetchCount (xs @ ys) = fetchCount xs + fetchCount ys"
  by (simp add: fetchCount_def)

lemma addKeys_no_fetch:
  "addKeys rt items keys = (thrown, keys', events) \<Longrightarrow> fetchCount events = 0"
proof (induction items arbitrary: keys thrown keys' events)
  case Nil
  then show ?case by (simp add: fetchCount_def)
next
  case (Cons keyData rest)
  from Cons.prems show ?case
    by (auto simp: fetchCount_def isFetch_def dest!: Cons.IH
          split: if_splits option.splits prod.splits)
qed

lemma refreshKeys_no_fetch: "fetchCount (snd (snd (refreshKeys rt now outcome st))) = 0"
proof (cases "readKeys outcome")
  case (Inl e)
  then show ?thesis
    by (simp add: refreshKeys_def fetchCount_def isFetch_def)
next
  case (Inr items)
  obtain thrown keys events where a: "addKeys rt items [] = (thrown, keys, events)"
    by (cases "addKeys rt items []")
  have "fetchCount events = 0"
    using a by (rule addKeys_no_fetch)
  then show ?thesis
    using Inr a
    by (cases thrown) (simp_all add: refreshKeys_def fetchCount_append, simp_all add: fetchCount_def isFetch_def)
qed

lemma settleCall_fetchCount:
  "fetchCount (trace (settleCall rt c outcome sys)) = fetchCount (trace sys)"
proof (cases "map_of (suspended sys) c")
  case None
  then show ?thesis by (simp add: settleCall_def)
next
  case (Some now)
  obtain thrown st' events
    where r: "refreshKeys rt now outcome (theValidator sys) = (thrown, st', events)"
    by (cases "refreshKeys rt now outcome (theValidator sys)")
  have "fetchCount events = 0"
    using refreshKeys_no_fetch [of rt now outcome "theValidator sys"] r by simp
  then show ?thesis
    using Some r by (simp add: settleCall_def fetchCount_append)
qed

lemma startCall_stale:
  assumes "\<not> cacheFresh now (theValidator sys)"
  shows "theValidator (startCall c now sys) = theValidator sys"
    and "fetchCount (trace (startCall c now sys)) = Suc (fetchCount (trace sys))"
  using assms by (simp_all add: startCall_def fetchCount_def isFetch_def)

lemma run_starts:
  assumes "\<forall>call \<in> set calls. \<not> cacheFresh (snd call) (theValidator sys)"
  shows "theValidator (run rt (map (\<lambda>call. Start (fst call) (snd call)) calls) sys)
           = theValidator sys
         \<and> fetchCount (trace (run rt (map (\<lambda>call. Start (fst call) (snd call)) calls) sys))
           = fetchCount (trace sys) + length calls"
  using assms
proof (induction calls arbitrary: sys)
  case Nil
  show ?case by (simp add: run_def)
next
  case (Cons a calls)
  have stale: "\<not> cacheFresh (snd a) (theValidator sys)"
    using Cons.prems by simp
  have same: "theValidator (startCall (fst a) (snd a) sys) = theValidator sys"
    using stale by (rule startCall_stale)
  have count: "fetchCount (trace (startCall (fst a) (snd a) sys)) = Suc (fetchCount (trace sys))"
    using stale by (rule startCall_stale)
  have "\<forall>call \<in> set calls. \<not> cacheFresh (snd call) (theValidator (startCall (fst a) (snd a) sys))"
    using Cons.prems same by simp
  from Cons.IH [OF this] show ?case
    using same count by (simp add: run_def)
qed

lemma run_settles:
  "fetchCount (trace (run rt (map (\<lambda>s. Settle (fst s) (snd s)) settles) sys))
     = fetchCount (trace sys)"
proof (induction settles arbitrary: sys)
  case Nil
  show ?case by (simp add: run_def)
next
  case (Cons a settles)
  have "fetchCount (trace (run rt (map (\<lambda>s. Settle (fst s) (snd s)) settles)
          (settleCall rt (fst a) (snd a) sys)))
        = fetchCount (trace (settleCall rt (fst a) (snd a) sys))"
    by (rule Cons.IH)
  then show ?case
    by (simp add: run_def settleCall_fetchCount)
qed

lemma run_append: "run rt (xs @ ys) sys = run rt ys (run rt xs sys)"
  by (simp add: run_def)

text \<open>
  A call that runs alone, from \<open>Start\<close> to \<open>Settle\<close> with no step of another call in
  between, is \<open>ensurePublicKeys\<close>.
\<close>

lemma run_alone:
  "\<not> cacheFresh now st \<Longrightarrow>
   run rt [Start c now, Settle c outcome] (idle st)
     = (case ensurePublicKeys rt now outcome st of
          (thrown, st', events) \<Rightarrow> \<lparr>theValidator = st', suspended = [], trace = events\<rparr>)"
  by (simp add: run_def startCall_def settleCall_def idle_def ensurePublicKeys_def mapDelete_def
        split: prod.splits)

text \<open>
  The claim C8 says that concurrent calls after the expiry of the cache cause at most
  one fetch. Two calls that start more than 24 hours after the last fetch, before the
  fetch of either has settled, cause two.
\<close>

theorem single_flight_counterexample:
  "fetchCount (trace (run exampleRuntime
       [Start 1 1800000000000, Start 2 1800000000001,
        Settle 1 (Rejected []), Settle 2 (Rejected [])]
       (idle cachedValidator))) = 2"
  by (simp add: run_def startCall_def settleCall_def idle_def cacheFresh_def cachedValidator_def
        KEY_CACHE_TTL_def refreshKeys_def readKeys_def mapDelete_def fetchCount_def isFetch_def)

text \<open>
  Claim C8, amended. The code has no single-flight refresh: every call that starts while
  the cache is empty or older than 24 hours calls \<open>fetch\<close> itself. When the calls of
  \<open>calls\<close> (each with the clock it reads) all start on such a cache before any fetch has
  settled, there are as many fetches as calls, however the fetches settle afterwards; a
  call that starts on a fresh cache fetches nothing.
\<close>

theorem concurrent_calls_fetch_each:
  assumes "\<forall>call \<in> set calls. \<not> cacheFresh (snd call) st"
  shows "fetchCount (trace (run rt
             (map (\<lambda>call. Start (fst call) (snd call)) calls
               @ map (\<lambda>s. Settle (fst s) (snd s)) settles)
             (idle st))) = length calls
         \<and> (cacheFresh now st \<longrightarrow> run rt [Start c now] (idle st) = idle st)"
proof -
  have "\<forall>call \<in> set calls. \<not> cacheFresh (snd call) (theValidator (idle st))"
    using assms by (simp add: idle_def)
  then have "fetchCount (trace (run rt (map (\<lambda>call. Start (fst call) (snd call)) calls) (idle st)))
      = fetchCount (trace (idle st)) + length calls"
    using run_starts by blast
  then have "fetchCount (trace (run rt
             (map (\<lambda>call. Start (fst call) (snd call)) calls
               @ map (\<lambda>s. Settle (fst s) (snd s)) settles)
             (idle st))) = length calls"
    by (simp add: run_append run_settles) (simp add: idle_def fetchCount_def)
  moreover have "cacheFresh now st \<longrightarrow> run rt [Start c now] (idle st) = idle st"
    by (simp add: run_def startCall_def idle_def)
  ultimately show ?thesis by simp
qed

theorem concurrent_calls_fetch_each_witness:
  "fetchCount (trace (run exampleRuntime
       (map (\<lambda>call. Start (fst call) (snd call))
            [(1, 1800000000000), (2, 1800000000001), (3, 1800000000002)]
         @ map (\<lambda>s. Settle (fst s) (snd s)) [(2, Rejected []), (1, Rejected []), (3, Rejected [])])
       (idle cachedValidator))) = 3
   \<and> run exampleRuntime [Start 4 1700000000500] (idle cachedValidator) = idle cachedValidator"
proof -
  have stale: "\<forall>call \<in> set [(1 :: nat, 1800000000000), (2, 1800000000001), (3, 1800000000002)].
      \<not> cacheFresh (snd call) cachedValidator"
    by (simp add: cacheFresh_def cachedValidator_def KEY_CACHE_TTL_def)
  have fresh: "cacheFresh 1700000000500 cachedValidator"
    by (simp add: cacheFresh_def cachedValidator_def KEY_CACHE_TTL_def)
  show ?thesis
    using concurrent_calls_fetch_each [OF stale, of exampleRuntime
        "[(2, Rejected []), (1, Rejected []), (3, Rejected [])]" 1700000000500 4] fresh
    by simp
qed

section \<open>Properties of the submission store\<close>

lemma mapSetBy_fresh:
  "k \<notin> fst ` set m \<Longrightarrow> mapSetBy (=) k v m = m @ [(k, v)]"
  by (induction m) auto

lemma fold_mapDelete:
  "fold (\<lambda>entry m. mapDelete (fst entry) m) es m = filter (\<lambda>p. fst p \<notin> fst ` set es) m"
proof (induction es arbitrary: m)
  case Nil
  show ?case by simp
next
  case (Cons e es)
  have "filter (\<lambda>p. fst p \<notin> fst ` set es) (mapDelete (fst e) m)
      = filter (\<lambda>p. fst p \<notin> fst ` set (e # es)) m"
    by (auto simp: mapDelete_def intro!: filter_cong)
  then show ?case
    using Cons.IH [of "mapDelete (fst e) m"] by simp
qed

lemma sorted_split:
  "sorted (map f S) \<Longrightarrow> S = filter (\<lambda>y. f y \<le> c) S @ filter (\<lambda>y. c < f y) S"
proof (induction S)
  case Nil
  show ?case by simp
next
  case (Cons a S)
  then have rest: "S = filter (\<lambda>y. f y \<le> c) S @ filter (\<lambda>y. c < f y) S"
    and least: "\<forall>y \<in> set S. f a \<le> f y"
    by simp_all
  show ?case
  proof (cases "f a \<le> c")
    case True
    then show ?thesis
      using rest by simp
  next
    case False
    then have "\<forall>y \<in> set S. c < f y"
      using least by auto
    then have "filter (\<lambda>y. f y \<le> c) S = []" and "filter (\<lambda>y. c < f y) S = S"
      by (auto simp: filter_empty_conv)
    then show ?thesis
      using False by simp
  qed
qed

lemma insort_key_before:
  "f a \<le> f x \<Longrightarrow> insort_key f a (ys @ x # zs) = insort_key f a ys @ x # zs"
  by (induction ys) auto

lemma insort_key_after:
  "\<forall>y \<in> set ys. f y < f a \<Longrightarrow> insort_key f a (ys @ zs) = ys @ insort_key f a zs"
  by (induction ys) auto

text \<open>
  The stable sort of a list with one more element at its end: the new element stands
  behind every element that is not greater and before every element that is greater.
\<close>

lemma sort_key_snoc_split:
  "sort_key f (xs @ [x])
     = filter (\<lambda>y. f y \<le> f x) (sort_key f xs) @ x # filter (\<lambda>y. f x < f y) (sort_key f xs)"
proof (induction xs)
  case Nil
  show ?case by simp
next
  case (Cons a xs)
  let ?S = "sort_key f xs"
  let ?A = "filter (\<lambda>y. f y \<le> f x) ?S"
  let ?B = "filter (\<lambda>y. f x < f y) ?S"
  have sorted: "sorted (map f ?S)"
    by (rule sorted_sort_key)
  have step: "sort_key f ((a # xs) @ [x]) = insort_key f a (?A @ x # ?B)"
    using Cons.IH by simp
  show ?case
  proof (cases "f a \<le> f x")
    case True
    have "filter (\<lambda>y. f y \<le> f x) (insort_key f a ?S) = insort_key f a ?A"
      using sorted True by (rule filter_insort)
    moreover have "filter (\<lambda>y. f x < f y) (insort_key f a ?S) = ?B"
      using True by (intro filter_insort_triv) simp
    moreover have "insort_key f a (?A @ x # ?B) = insort_key f a ?A @ x # ?B"
      using True by (rule insort_key_before)
    ultimately show ?thesis
      using step by simp
  next
    case False
    then have less: "f x < f a"
      by simp
    have "filter (\<lambda>y. f y \<le> f x) (insort_key f a ?S) = ?A"
      using False by (intro filter_insort_triv) simp
    moreover have "filter (\<lambda>y. f x < f y) (insort_key f a ?S) = insort_key f a ?B"
      using sorted less by (rule filter_insort)
    moreover have "\<forall>y \<in> set ?A. f y < f a"
      using less by auto
    then have "insort_key f a (?A @ x # ?B) = ?A @ insort_key f a (x # ?B)"
      by (rule insort_key_after)
    ultimately show ?thesis
      using step False by simp
  qed
qed

lemma take_sort_key_snoc:
  assumes "n \<le> length (filter (\<lambda>y. f y \<le> f x) xs)"
  shows "take n (sort_key f (xs @ [x])) = take n (sort_key f xs)"
    and "\<forall>y \<in> set (take n (sort_key f xs)). f y \<le> f x"
proof -
  let ?S = "sort_key f xs"
  let ?A = "filter (\<lambda>y. f y \<le> f x) ?S"
  let ?B = "filter (\<lambda>y. f x < f y) ?S"
  have "length ?A = length (filter (\<lambda>y. f y \<le> f x) xs)"
    by (simp add: filter_sort)
  then have n: "n \<le> length ?A"
    using assms by simp
  have "?S = ?A @ ?B"
    using sorted_sort_key by (rule sorted_split)
  then have "take n ?S = take n (?A @ ?B)"
    by simp
  also have "\<dots> = take n ?A"
    using n by simp
  finally have right: "take n ?S = take n ?A" .
  have "take n (sort_key f (xs @ [x])) = take n (?A @ x # ?B)"
    by (simp only: sort_key_snoc_split)
  also have "\<dots> = take n ?A"
    using n by simp
  finally show "take n (sort_key f (xs @ [x])) = take n (sort_key f xs)"
    using right by simp
  have "set (take n ?A) \<subseteq> set ?A"
    by (rule set_take_subset)
  then show "\<forall>y \<in> set (take n (sort_key f xs)). f y \<le> f x"
    unfolding right by auto
qed

lemma filter_keys_entries:
  assumes "distinct (map fst m)" and "set es \<subseteq> set m"
  shows "filter (\<lambda>p. fst p \<notin> fst ` set es) m = filter (\<lambda>p. p \<notin> set es) m"
proof (rule filter_cong [OF refl])
  fix p
  assume p: "p \<in> set m"
  show "(fst p \<notin> fst ` set es) = (p \<notin> set es)"
  proof
    assume "fst p \<notin> fst ` set es"
    then show "p \<notin> set es" by auto
  next
    assume np: "p \<notin> set es"
    show "fst p \<notin> fst ` set es"
    proof
      assume "fst p \<in> fst ` set es"
      then obtain q where q: "q \<in> set es" "fst q = fst p" by auto
      then have "q \<in> set m" using assms(2) by auto
      then have "q = p"
        using assms(1) p q(2) by (meson distinct_map inj_onD)
      with q(1) np show False by simp
    qed
  qed
qed

lemma length_filter_removed:
  assumes "distinct xs" and "distinct es" and "set es \<subseteq> set xs"
  shows "length (filter (\<lambda>p. p \<notin> set es) xs) = length xs - length es"
proof -
  have "length (filter (\<lambda>p. p \<notin> set es) xs) = card ({p. p \<notin> set es} \<inter> set xs)"
    using assms(1) by (rule distinct_length_filter)
  also have "{p. p \<notin> set es} \<inter> set xs = set xs - set es"
    by auto
  also have "card (set xs - set es) = card (set xs) - card (set es)"
    using assms(3) by (simp add: card_Diff_subset)
  also have "\<dots> = length xs - length es"
    using assms(1,2) by (simp add: distinct_card)
  finally show ?thesis .
qed

lemma sorted_take_drop:
  assumes "sorted (map f zs)" and "r \<in> set (take n zs)" and "k \<in> set (drop n zs)"
  shows "f r \<le> f k"
proof -
  have "sorted (map f (take n zs) @ map f (drop n zs))"
    using assms(1) by (simp flip: map_append)
  then show ?thesis
    using assms(2,3) by (auto simp: sorted_append)
qed

lemma oldestEntries_props:
  assumes "distinct (map fst m)" and "n \<le> length m"
  shows "length (oldestEntries n m) = n"
    and "set (oldestEntries n m) \<subseteq> set m"
    and "distinct (oldestEntries n m)"
    and "\<And>r k. r \<in> set (oldestEntries n m) \<Longrightarrow> k \<in> set m \<Longrightarrow> k \<notin> set (oldestEntries n m)
           \<Longrightarrow> timestamp (snd r) \<le> timestamp (snd k)"
proof -
  let ?f = "\<lambda>entry :: string \<times> AmpFormSubmission. timestamp (snd entry)"
  let ?s = "sort_key ?f m"
  have dm: "distinct m"
    using assms(1) by (simp add: distinct_map)
  show "length (oldestEntries n m) = n"
    using assms(2) by (simp add: oldestEntries_def)
  show "set (oldestEntries n m) \<subseteq> set m"
    using set_take_subset [of n ?s] by (simp add: oldestEntries_def)
  show "distinct (oldestEntries n m)"
    using dm by (simp add: oldestEntries_def)
  fix r k
  assume r: "r \<in> set (oldestEntries n m)" and k: "k \<in> set m"
    and nk: "k \<notin> set (oldestEntries n m)"
  have "k \<in> set (take n ?s @ drop n ?s)"
    using k by simp
  then have "k \<in> set (drop n ?s)"
    using nk unfolding set_append oldestEntries_def by blast
  moreover have "sorted (map ?f ?s)"
    by (rule sorted_sort_key)
  ultimately show "timestamp (snd r) \<le> timestamp (snd k)"
    using r sorted_take_drop [of ?f ?s r n k] by (simp add: oldestEntries_def)
qed

text \<open>
  \<open>cleanupOldSubmissions\<close> removes from the map the tenth of its entries that is oldest
  by time value, and nothing else.
\<close>

lemma cleanupOldSubmissions_removes_oldest:
  assumes "distinct (map fst m)"
  shows "fst (cleanupOldSubmissions m)
           = filter (\<lambda>p. p \<notin> set (oldestEntries (length m div 10) m)) m"
    and "length (fst (cleanupOldSubmissions m)) = length m - length m div 10"
proof -
  let ?old = "oldestEntries (length m div 10) m"
  have n: "length m div 10 \<le> length m"
    by simp
  note old = oldestEntries_props [OF assms n]
  have "fst (cleanupOldSubmissions m) = filter (\<lambda>p. fst p \<notin> fst ` set ?old) m"
    by (simp add: cleanupOldSubmissions_def Let_def fold_mapDelete oldestEntries_def)
  also have "\<dots> = filter (\<lambda>p. p \<notin> set ?old) m"
    using assms old(2) by (rule filter_keys_entries)
  finally show removed: "fst (cleanupOldSubmissions m) = filter (\<lambda>p. p \<notin> set ?old) m" .
  have "distinct m"
    using assms by (simp add: distinct_map)
  then have "length (filter (\<lambda>p. p \<notin> set ?old) m) = length m - length ?old"
    using old(3) old(2) by (rule length_filter_removed)
  then show "length (fst (cleanupOldSubmissions m)) = length m - length m div 10"
    by (simp add: removed old(1))
qed

text \<open>
  When the last entry of the map is not among the oldest tenth, the entries removed are
  the oldest of the entries before it.
\<close>

lemma cleanupOldSubmissions_keeps_last:
  assumes "distinct (map fst (m @ [new]))"
    and "Suc (length m) div 10
           \<le> length (filter (\<lambda>entry. timestamp (snd entry) \<le> timestamp (snd new)) m)"
  shows "fst (cleanupOldSubmissions (m @ [new]))
           = filter (\<lambda>p. p \<notin> set (oldestEntries (Suc (length m) div 10) m)) m @ [new]"
    and "\<forall>r \<in> set (oldestEntries (Suc (length m) div 10) m).
           timestamp (snd r) \<le> timestamp (snd new)"
proof -
  let ?f = "\<lambda>entry :: string \<times> AmpFormSubmission. timestamp (snd entry)"
  let ?n = "Suc (length m) div 10"
  let ?old = "oldestEntries ?n m"
  have count: "?n \<le> length (filter (\<lambda>y. ?f y \<le> ?f new) m)"
    using assms(2) by simp
  have same: "oldestEntries ?n (m @ [new]) = ?old"
    using take_sort_key_snoc(1) [OF count] by (simp add: oldestEntries_def)
  show older: "\<forall>r \<in> set ?old. timestamp (snd r) \<le> timestamp (snd new)"
    using take_sort_key_snoc(2) [OF count] by (simp add: oldestEntries_def)
  have "new \<notin> set m"
    using assms(1) by (auto simp: image_iff)
  moreover have "set ?old \<subseteq> set m"
    using set_take_subset [of ?n "sort_key ?f m"] by (simp add: oldestEntries_def)
  ultimately have keep: "new \<notin> set ?old"
    by auto
  have "fst (cleanupOldSubmissions (m @ [new]))
      = filter (\<lambda>p. p \<notin> set (oldestEntries (length (m @ [new]) div 10) (m @ [new]))) (m @ [new])"
    using assms(1) by (rule cleanupOldSubmissions_removes_oldest)
  also have "\<dots> = filter (\<lambda>p. p \<notin> set ?old) (m @ [new])"
    by (simp add: same del: filter_append)
  also have "\<dots> = filter (\<lambda>p. p \<notin> set ?old) m @ [new]"
    using keep by simp
  finally show "fst (cleanupOldSubmissions (m @ [new]))
      = filter (\<lambda>p. p \<notin> set ?old) m @ [new]" .
qed

text \<open>
  \<open>processSubmission\<close> with valid form data and an identifier that is not in the map, on
  a map that is full: the submission is appended and \<open>cleanupOldSubmissions\<close> runs.
\<close>

lemma processSubmission_on_full_map:
  assumes "validateFormData (formData req) = Inr warnings"
    and "generateSubmissionId idClock random \<notin> fst ` set m"
    and "maxSubmissions \<le> length m"
  shows "\<exists>submission.
           fst (processSubmission idClock random now analysisFails m req) = Inr submission
           \<and> timestamp submission = now
           \<and> fst (snd (processSubmission idClock random now analysisFails m req))
               = fst (cleanupOldSubmissions (m @ [(generateSubmissionId idClock random, submission)]))"
proof -
  let ?newId = "generateSubmissionId idClock random"
  define submission :: AmpFormSubmission where
    "submission = \<lparr>formData = formData req, metadata = metadata req,
       isAmpValidated = isAmpValidated req, submissionId = ?newId,
       submissionFormId = formId (formStructure (metadata req)),
       timestamp = now, isTracked = True\<rparr>"
  have stored: "mapSetBy (=) ?newId submission m = m @ [(?newId, submission)]"
    using assms(2) by (rule mapSetBy_fresh)
  have "fst (processSubmission idClock random now analysisFails m req) = Inr submission"
    by (simp add: processSubmission_def Let_def assms(1) split_beta flip: submission_def)
  moreover have "timestamp submission = now"
    by (simp add: submission_def)
  moreover have "fst (snd (processSubmission idClock random now analysisFails m req))
      = fst (cleanupOldSubmissions (m @ [(?newId, submission)]))"
    using assms(3)
    by (simp add: processSubmission_def Let_def assms(1) stored split_beta flip: submission_def)
  ultimately show ?thesis
    by blast
qed

lemma fullStore_keys:
  "map fst fullStore = map (\<lambda>i. replicate (Suc i) CHR ''k'') [0..<10000]"
  by (simp add: fullStore_def storedSubmission_def comp_def)

lemma youngerStore_keys:
  "map fst youngerStore = map (\<lambda>i. replicate (Suc i) CHR ''k'') [0..<10000]"
  by (simp add: youngerStore_def youngerSubmission_def comp_def)

lemma exampleRequest_valid: "validateFormData (formData exampleRequest) = Inr []"
  by (simp add: exampleRequest_def validateFormData_def truthy_def typeof_def objectKeys_def
        quoteJSONString_def quoteChar_def dangerousPatterns_def scriptTagAt_def
        javascriptUrlAt_def eventHandlerAt_def canonicalize_def isWordChar_def
        isLineTerminator_def isWhiteSpace_def Let_def)

lemma exampleId:
  "generateSubmissionId 1700000000000 [1, 2, 3, 4, 5, 6] = ''sub_loyw3v28_010203040506''"
  by (simp add: generateSubmissionId_def intToString_def hexByte_def numberToString.simps digitChar_def)

text \<open>
  The claim C4 says that an insert into a store of 10000 submissions always leaves 9001
  entries with the new submission among them. Two stores of 10000 submissions show that
  it does not. In \<open>youngerStore\<close> every submission has a later time value than the new
  one (as after a step back of the clock, or in a file that \<open>loadSubmissions\<close>
  restores): 9001 entries are left, and the new submission is not one of them, since it
  is the oldest and is removed with 999 others. In \<open>clashStore\<close> the identifier
  generated is a key already: \<open>set\<close> replaces that entry, the map keeps its 10000
  entries and nothing is removed.
\<close>

theorem processSubmission_at_capacity_counterexample:
  "length youngerStore = 10000
   \<and> length (fst (snd (processSubmission 1700000000000 [1, 2, 3, 4, 5, 6] 1700000000000 False
        youngerStore exampleRequest))) = 9001
   \<and> getSubmission (fst (snd (processSubmission 1700000000000 [1, 2, 3, 4, 5, 6] 1700000000000
        False youngerStore exampleRequest))) ''sub_loyw3v28_010203040506'' = None
   \<and> length clashStore = 10000
   \<and> length (fst (snd (processSubmission 1700000000000 [1, 2, 3, 4, 5, 6] 1700000000000 False
        clashStore exampleRequest))) = 10000"
proof -
  let ?f = "\<lambda>entry :: string \<times> AmpFormSubmission. timestamp (snd entry)"
  let ?newId = "generateSubmissionId 1700000000000 [1, 2, 3, 4, 5, 6]"
  let ?P = "processSubmission 1700000000000 [1, 2, 3, 4, 5, 6] 1700000000000 False
        youngerStore exampleRequest"
  have size: "length youngerStore = 10000"
    by (simp add: youngerStore_def)
  have keys: "distinct (map fst youngerStore)"
    unfolding youngerStore_keys by (simp add: distinct_map inj_on_def)
  have "fst ` set youngerStore = set (map fst youngerStore)"
    by simp
  then have fresh: "?newId \<notin> fst ` set youngerStore"
    unfolding exampleId youngerStore_keys by auto
  have "maxSubmissions \<le> length youngerStore"
    by (simp add: size maxSubmissions_def)
  with exampleRequest_valid fresh obtain submission
    where time: "timestamp submission = 1700000000000"
      and store: "fst (snd ?P) = fst (cleanupOldSubmissions (youngerStore @ [(?newId, submission)]))"
    using processSubmission_on_full_map [of exampleRequest "[]" 1700000000000
        "[1, 2, 3, 4, 5, 6]" youngerStore 1700000000000 False]
    by blast
  let ?new = "(?newId, submission)"
  let ?stored = "youngerStore @ [?new]"
  have dist: "distinct (map fst ?stored)"
    using keys fresh by simp
  have younger: "\<forall>y \<in> set youngerStore. ?f ?new < ?f y"
    by (auto simp: youngerStore_def youngerSubmission_def time)
  then have none: "filter (\<lambda>y. ?f y \<le> ?f ?new) (sort_key ?f youngerStore) = []"
    by (auto simp: filter_empty_conv)
  have "sort_key ?f ?stored
      = ?new # filter (\<lambda>y. ?f ?new < ?f y) (sort_key ?f youngerStore)"
    by (simp only: sort_key_snoc_split none append_Nil)
  then have "oldestEntries (length ?stored div 10) ?stored
      = ?new # take 999 (filter (\<lambda>y. ?f ?new < ?f y) (sort_key ?f youngerStore))"
    by (simp add: oldestEntries_def size)
  then have gone: "?new \<in> set (oldestEntries (length ?stored div 10) ?stored)"
    by simp
  have cleaned: "fst (snd ?P)
      = filter (\<lambda>p. p \<notin> set (oldestEntries (length ?stored div 10) ?stored)) ?stored"
    using cleanupOldSubmissions_removes_oldest(1) [OF dist] store by simp
  have "?newId \<notin> fst ` set (fst (snd ?P))"
  proof
    assume "?newId \<in> fst ` set (fst (snd ?P))"
    then obtain p where "p \<in> set (fst (snd ?P))" and key: "fst p = ?newId"
      by auto
    then have "p \<in> set (filter
        (\<lambda>p. p \<notin> set (oldestEntries (length ?stored div 10) ?stored)) ?stored)"
      by (simp only: cleaned)
    then have "p \<in> set ?stored
        \<and> p \<notin> set (oldestEntries (length ?stored div 10) ?stored)"
      unfolding set_filter by blast
    then have stored: "p \<in> set ?stored"
      and kept: "p \<notin> set (oldestEntries (length ?stored div 10) ?stored)"
      by blast+
    have "p \<notin> set youngerStore"
      using fresh key by (auto simp: image_iff)
    with stored have "p = ?new"
      by simp
    with gone kept show False
      by simp
  qed
  then have absent: "getSubmission (fst (snd ?P)) ?newId = None"
    by (simp add: getSubmission_def map_of_eq_None_iff)
  have left: "length (fst (snd ?P)) = 9001"
    using cleanupOldSubmissions_removes_oldest(2) [OF dist] store by (simp add: size)
  have clash: "length clashStore = 10000"
    by (simp add: clashStore_def)
  have "length (fst (snd (processSubmission 1700000000000 [1, 2, 3, 4, 5, 6] 1700000000000 False
        clashStore exampleRequest))) = 10000"
    by (simp add: processSubmission_def Let_def exampleRequest_valid exampleId clashStore_def
          maxSubmissions_def)
  with size left absent clash show ?thesis
    unfolding exampleId by simp
qed

text \<open>
  Claim C4, amended. The map holds \<open>maxSubmissions\<close> = 10000 submissions (under distinct
  keys, as a map does), the identifier generated is not a key of the map, and at least
  1000 of the stored submissions have a time value that is not later than that of the
  new one. Then \<open>processSubmission\<close> on valid form data leaves 9001 entries: the 1000
  entries that were oldest by time value are gone, every entry kept is at least as young
  as every entry removed, and the new submission is stored under its identifier.
\<close>

theorem processSubmission_at_capacity:
  assumes "length submissionsMap = maxSubmissions"
    and "distinct (map fst submissionsMap)"
    and "generateSubmissionId idClock random \<notin> fst ` set submissionsMap"
    and "1000 \<le> length (filter (\<lambda>entry. timestamp (snd entry) \<le> now) submissionsMap)"
    and "validateFormData (formData req) = Inr warnings"
  shows "\<exists>submission store' events.
           processSubmission idClock random now analysisFails submissionsMap req
             = (Inr submission, store', events)
           \<and> length store' = 9001
           \<and> length (oldestEntries 1000 submissionsMap) = 1000
           \<and> set (oldestEntries 1000 submissionsMap) \<subseteq> set submissionsMap
           \<and> store' = filter (\<lambda>entry. entry \<notin> set (oldestEntries 1000 submissionsMap))
                         submissionsMap
                       @ [(generateSubmissionId idClock random, submission)]
           \<and> getSubmission store' (generateSubmissionId idClock random) = Some submission
           \<and> (\<forall>removed \<in> set (oldestEntries 1000 submissionsMap). \<forall>kept \<in> set store'.
                 timestamp (snd removed) \<le> timestamp (snd kept))"
proof -
  let ?newId = "generateSubmissionId idClock random"
  let ?P = "processSubmission idClock random now analysisFails submissionsMap req"
  let ?old = "oldestEntries 1000 submissionsMap"
  let ?kept = "filter (\<lambda>entry. entry \<notin> set ?old) submissionsMap"
  have len: "length submissionsMap = 10000"
    using assms(1) by (simp add: maxSubmissions_def)
  have "maxSubmissions \<le> length submissionsMap"
    using assms(1) by simp
  with assms(5) assms(3) obtain submission
    where ok: "fst ?P = Inr submission"
      and time: "timestamp submission = now"
      and store: "fst (snd ?P) = fst (cleanupOldSubmissions (submissionsMap @ [(?newId, submission)]))"
    using processSubmission_on_full_map [of req warnings idClock random submissionsMap now
        analysisFails]
    by blast
  let ?new = "(?newId, submission)"
  have dist: "distinct (map fst (submissionsMap @ [?new]))"
    using assms(2,3) by simp
  have tenth: "Suc (length submissionsMap) div 10 = 1000"
    by (simp add: len)
  have count: "Suc (length submissionsMap) div 10
      \<le> length (filter (\<lambda>entry. timestamp (snd entry) \<le> timestamp (snd ?new)) submissionsMap)"
    using assms(4) by (simp add: tenth time)
  note last = cleanupOldSubmissions_keeps_last [OF dist count]
  have cleaned: "fst (snd ?P) = ?kept @ [?new]"
    using last(1) store by (simp only: tenth)
  have older: "\<forall>r \<in> set ?old. timestamp (snd r) \<le> now"
    using last(2) by (simp add: tenth time)
  have result: "?P = (Inr submission, ?kept @ [?new], snd (snd ?P))"
    using ok cleaned by (metis prod.collapse)
  have n: "1000 \<le> length submissionsMap"
    by (simp add: len)
  note old = oldestEntries_props [OF assms(2) n]
  have dm: "distinct submissionsMap"
    using assms(2) by (simp add: distinct_map)
  have "length ?kept = length submissionsMap - length ?old"
    using dm old(3) old(2) by (rule length_filter_removed)
  then have size: "length (?kept @ [?new]) = 9001"
    by (simp add: len old(1))
  have "map_of ?kept ?newId = None"
    using assms(3) by (auto simp: map_of_eq_None_iff image_iff)
  then have found: "getSubmission (?kept @ [?new]) ?newId = Some submission"
    by (simp add: getSubmission_def map_add_def)
  have order: "timestamp (snd removed) \<le> timestamp (snd kept)"
    if r: "removed \<in> set ?old" and k: "kept \<in> set (?kept @ [?new])" for removed kept
  proof (cases "kept = ?new")
    case True
    then show ?thesis
      using older r by (simp add: time)
  next
    case False
    then have "kept \<in> set submissionsMap" and "kept \<notin> set ?old"
      using k by auto
    with r show ?thesis
      by (rule old(4))
  qed
  show ?thesis
    using result size old(1) old(2) found order by blast
qed

theorem processSubmission_at_capacity_witness:
  "\<exists>submission store' events.
     processSubmission 1700000000000 [1, 2, 3, 4, 5, 6] 1700000000000 False fullStore exampleRequest
       = (Inr submission, store', events)
     \<and> length fullStore = 10000
     \<and> length store' = 9001
     \<and> getSubmission store' ''sub_loyw3v28_010203040506'' = Some submission"
proof -
  have size: "length fullStore = maxSubmissions"
    by (simp add: fullStore_def maxSubmissions_def)
  have keys: "distinct (map fst fullStore)"
    unfolding fullStore_keys by (simp add: distinct_map inj_on_def)
  have "fst ` set fullStore = set (map fst fullStore)"
    by simp
  then have new: "generateSubmissionId 1700000000000 [1, 2, 3, 4, 5, 6] \<notin> fst ` set fullStore"
    unfolding exampleId fullStore_keys by auto
  have "\<forall>entry \<in> set fullStore. timestamp (snd entry) \<le> 1700000000000"
    by (auto simp: fullStore_def storedSubmission_def)
  then have "filter (\<lambda>entry. timestamp (snd entry) \<le> 1700000000000) fullStore = fullStore"
    by (simp add: filter_id_conv)
  then have older: "1000 \<le> length (filter (\<lambda>entry. timestamp (snd entry) \<le> 1700000000000)
      fullStore)"
    using size by (simp add: maxSubmissions_def)
  show ?thesis
    using processSubmission_at_capacity [OF size keys new older exampleRequest_valid, of False] size
    by (auto simp: exampleId maxSubmissions_def)
qed

section \<open>Dangerous content in form data\<close>










end
